theory Spec2Isabelle
  imports Main "HOL-Library.AList"
begin

section \<open>Errors, log lines and process termination\<close>

text \<open>
  A Go \<open>error\<close> value is \<open>nil\<close> or an error; \<open>nil\<close> is \<open>None\<close>. The only error the
  code compares against is the sentinel \<open>http.ErrServerClosed\<close>; every other error is
  carried with its text.
\<close>

datatype go_error = ErrServerClosed | OtherError string

fun Error_str :: "go_error \<Rightarrow> string" where
  "Error_str ErrServerClosed = ''http: Server closed''"
| "Error_str (OtherError msg) = msg"

text \<open>
  Modelled from the spec: the package \<open>zlog\<close> is not part of the sources. Its severity
  classes are the ones the code names; \<open>Fatalf\<close> writes its line and terminates the
  process, \<open>Panic\<close> writes its line and panics, and every other call only writes a line.
\<close>

datatype log_level =
  LogFatal | LogPanic | LogError | LogWarn | LogSuccess | LogInfo | LogDump

text \<open>
  What a server answers requests with: an engine (by its index in the heap), the
  redirect handler \<open>tlsRedirectHandler{Domain: d}\<close>, or a handler of the caller.
\<close>

datatype handler = EngineHandler nat | tlsRedirectHandler string | CustomHandler nat

text \<open>
  What the code does to the world, in the order it does it. A logger is named by its
  prefix: the package logger \<open>Log\<close> has the prefix \<open>[Z] \<close>, the logger of an engine
  the prefix \<open>[name] \<close>. An \<open>*http.Server\<close> is named by the number of the listener task
  that made it. \<open>WithTimeout\<close> and \<open>Shutdown\<close> carry the deadline in seconds,
  \<open>AfterFunc\<close> and \<open>Sleep\<close> their duration in milliseconds.
\<close>

datatype event =
    LogLine string log_level string
  | NetListen string string
  | ListenerClose
  | Store string nat nat
  | AfterFunc nat
  | ListenAndServe nat
  | ListenAndServeTLS nat string string
  | HttpListenAndServe string handler
  | IsKill bool
  | WithTimeout nat
  | RunNewProcess string
  | Shutdown nat "nat option"
  | Close nat
  | Done
  | Wait
  | CallShutdownDone
  | Sleep nat
  | Cancel

datatype abort = ProcessExit | GoPanic string

definition Log :: string where
  "Log = ''[Z] ''"

definition newline :: string where
  "newline = [CHR 0x0A]"

section \<open>Strings\<close>

fun HasPrefix :: "string \<Rightarrow> string \<Rightarrow> bool" where
  "HasPrefix s [] = True"
| "HasPrefix [] (p # ps) = False"
| "HasPrefix (c # cs) (p # ps) = (c = p \<and> HasPrefix cs ps)"

fun Contains :: "string \<Rightarrow> string \<Rightarrow> bool" where
  "Contains [] substr = (substr = [])"
| "Contains (c # cs) substr = (HasPrefix (c # cs) substr \<or> Contains cs substr)"

text \<open>\<open>strconv.Itoa\<close>: the decimal digits, most significant first, with a sign.\<close>

definition digit_char :: "nat \<Rightarrow> char" where
  "digit_char d = ''0123456789'' ! d"

fun digits :: "nat \<Rightarrow> string" where
  "digits n = (if n < 10 then [digit_char n] else digits (n div 10) @ [digit_char (n mod 10)])"

declare digits.simps [simp del]

definition Itoa :: "int \<Rightarrow> string" where
  "Itoa i = (if i < 0 then CHR ''-'' # digits (nat (- i)) else digits (nat i))"

section \<open>Address resolution\<close>

text \<open>
  \<open>getPort\<close> asks the operating system for a port only on the path that reaches
  \<open>net.Listen\<close>; what the system answers there (an error, or the port of the throwaway
  listener) is the first argument.
\<close>

definition getPort :: "go_error + int \<Rightarrow> string \<Rightarrow> event list \<times> (abort + string)" where
  "getPort listen addr0 =
     (let addr = (if \<not> Contains addr0 '':'' then '':'' @ addr0 else addr0) in
      if addr \<noteq> '':0'' then ([], Inr addr)
      else
        (case listen of
           Inl err \<Rightarrow>
             ([NetListen ''tcp'' '':0'',
               LogLine Log LogFatal (''Listen: '' @ Error_str err @ newline)],
              Inl ProcessExit)
         | Inr port \<Rightarrow>
             ([NetListen ''tcp'' '':0'', ListenerClose], Inr ('':'' @ Itoa port))))"

section \<open>Engines and the registry\<close>

text \<open>
  The value of the field \<open>HTTPProcessing\<close> is an \<open>interface{}\<close>; the code inspects it
  by a type switch with the cases \<open>string\<close>, \<open>http.Handler\<close> and default (\<open>nil\<close>
  and every other type). Handlers and TLS configurations are opaque and named by a number.
\<close>

datatype iface = Nil | StringVal string | HandlerVal nat | OtherVal

record TlsCfg =
  Cert :: string
  Key :: string
  HTTPAddr :: string
  HTTPProcessing :: iface
  Config :: "nat option"

record addrSt = TlsCfg +
  addr :: string

record Logger =
  logPrefix :: string
  logLevel :: log_level

text \<open>
  The fields of \<open>Engine\<close> this part of the code reads or writes. The router, the
  context pool, the cache and the pre-handler belong to the dispatch of requests and are
  left out. Durations are in nanoseconds. The field \<open>Log\<close> is \<open>ELog\<close> here (\<open>Log\<close>
  is the logger of the package) and the field \<open>addr\<close> is \<open>addrs\<close> (\<open>addr\<close> is the
  field of \<open>addrSt\<close>).
\<close>

record Engine =
  ELog :: Logger
  readTimeout :: int
  writeTimeout :: int
  webModeName :: string
  webMode :: int
  ShowFavicon :: bool
  MaxMultipartMemory :: int
  BindTag :: string
  customMethodType :: string
  addrs :: "addrSt list"
  BindStructDelimiter :: string
  BindStructSuffix :: string

definition defaultMultipartMemory :: int where
  "defaultMultipartMemory = 32 * 2 ^ 20"

definition DebugMode :: string where
  "DebugMode = ''dev''"

definition ProdMode :: string where
  "ProdMode = ''prod''"

definition TestMode :: string where
  "TestMode = ''test''"

definition defaultServerName :: string where
  "defaultServerName = ''Z''"

definition defaultBindTag :: string where
  "defaultBindTag = ''json''"

text \<open>
  \<open>prodCode = 0\<close>, \<open>debugCode = iota\<close> and \<open>testCode\<close> are the seventh to ninth
  constants of their block, so \<open>iota\<close> is 7 and then 8 there.
\<close>

definition prodCode :: int where
  "prodCode = 0"

definition debugCode :: int where
  "debugCode = 7"

definition testCode :: int where
  "testCode = 8"

definition defaultAddr :: addrSt where
  "defaultAddr = \<lparr>Cert = [], Key = [], HTTPAddr = [], HTTPProcessing = Nil,
     Config = None, addr = '':3788''\<rparr>"

text \<open>
  The package-level variables. An \<open>*Engine\<close> is an index into \<open>heap\<close>: allocating
  appends, so a new engine never shares its state with an older one. \<open>ShutdownDone\<close>
  says whether the callback is set (not \<open>nil\<close>).
\<close>

record pkg =
  zservers :: "string \<rightharpoonup> nat"
  heap :: "Engine list"
  ShutdownDone :: bool
  CloseHotRestart :: bool
  fileMd5 :: string
  pkgBindStructDelimiter :: string
  pkgBindStructSuffix :: string

definition serverName_arg :: "string list \<Rightarrow> string" where
  "serverName_arg serverName = (case serverName of [] \<Rightarrow> defaultServerName | n # _ \<Rightarrow> n)"

definition New :: "string list \<Rightarrow> pkg \<Rightarrow> event list \<times> (abort + nat \<times> pkg)" where
  "New serverName g =
     (let name = serverName_arg serverName;
          log = \<lparr>logPrefix = ''['' @ name @ ''] '', logLevel = LogInfo\<rparr>;
          r = \<lparr>ELog = log, readTimeout = 0, writeTimeout = 0, webModeName = ProdMode,
               webMode = prodCode, ShowFavicon = False,
               MaxMultipartMemory = defaultMultipartMemory, BindTag = defaultBindTag,
               customMethodType = [], addrs = [defaultAddr],
               BindStructDelimiter = pkgBindStructDelimiter g,
               BindStructSuffix = pkgBindStructSuffix g\<rparr>
      in if zservers g name \<noteq> None
         then ([LogLine Log LogFatal (''serverName: '' @ name @ '' is has'')], Inl ProcessExit)
         else ([], Inr (length (heap g),
                 g\<lparr>zservers := (zservers g)(name \<mapsto> length (heap g)), heap := heap g @ [r]\<rparr>)))"

definition Server :: "string list \<Rightarrow> pkg \<Rightarrow> event list \<times> (abort + (nat \<times> bool) \<times> pkg)" where
  "Server serverName g =
     (let name = serverName_arg serverName in
      case zservers g name of
        Some engine \<Rightarrow> ([], Inr ((engine, True), g))
      | None \<Rightarrow>
          (case New [name] g of
             (evs, Inl a) \<Rightarrow> (LogLine Log LogWarn (''serverName: '' @ name @ '' is not'') # evs, Inl a)
           | (evs, Inr (engine, g')) \<Rightarrow>
               (LogLine Log LogWarn (''serverName: '' @ name @ '' is not'') # evs,
                Inr ((engine, False), g'))))"

text \<open>
  \<open>AddAddr\<close> appends the bind target that \<open>resolveAddr\<close> (not part of the sources)
  made of its arguments; that target is the argument here.
\<close>

definition AddAddr :: "addrSt \<Rightarrow> Engine \<Rightarrow> Engine" where
  "AddAddr resolved e = e\<lparr>addrs := addrs e @ [resolved]\<rparr>"

definition CloseHotRestartFileMd5 :: "pkg \<Rightarrow> pkg" where
  "CloseHotRestartFileMd5 g = g\<lparr>fileMd5 := []\<rparr>"

definition SetMode :: "string \<Rightarrow> Engine \<Rightarrow> event list \<times> (abort + Engine)" where
  "SetMode v e =
     (if v = ProdMode \<or> v = [] then
        ([], Inr (e\<lparr>webMode := prodCode, webModeName := (if v = [] then ProdMode else v),
                    ELog := (ELog e)\<lparr>logLevel := LogSuccess\<rparr>\<rparr>))
      else if v = DebugMode then
        ([], Inr (e\<lparr>webMode := debugCode, webModeName := v,
                    ELog := (ELog e)\<lparr>logLevel := LogDump\<rparr>\<rparr>))
      else if v = TestMode then
        ([], Inr (e\<lparr>webMode := testCode, webModeName := v,
                    ELog := (ELog e)\<lparr>logLevel := LogInfo\<rparr>\<rparr>))
      else
        ([LogLine (logPrefix (ELog e)) LogPanic (''web mode unknown: '' @ v)],
         Inl (GoPanic (''web mode unknown: '' @ v))))"

definition IsDebug :: "Engine \<Rightarrow> bool" where
  "IsDebug e = (webMode e > prodCode)"

text \<open>
  The package state before any engine is made, for a given fingerprint of the executable
  (\<open>init\<close> computes it with \<open>zstring.Md5File\<close>, which is not part of the sources).
\<close>

definition init_pkg :: "string \<Rightarrow> pkg" where
  "init_pkg md5 = \<lparr>zservers = Map.empty, heap = [], ShutdownDone = False,
     CloseHotRestart = False, fileMd5 = md5, pkgBindStructDelimiter = ''-'',
     pkgBindStructSuffix = []\<rparr>"

section \<open>Run: what each task does by itself\<close>

text \<open>How \<open>fmt\<close> prints an \<open>error\<close> that may be \<open>nil\<close>.\<close>

definition err_text :: "go_error option \<Rightarrow> string" where
  "err_text err = (case err of None \<Rightarrow> ''<nil>'' | Some e \<Rightarrow> Error_str e)"

definition isTls :: "addrSt \<Rightarrow> bool" where
  "isTls cfg = (Cert cfg \<noteq> [] \<or> Config cfg \<noteq> None)"

record http_Server =
  Addr :: string
  Handler :: handler
  ReadTimeout :: int
  WriteTimeout :: int
  TLSConfig :: "nat option"

record serverMap =
  engine :: nat
  srv :: nat

text \<open>The server a listener task makes for its address; \<open>e\<close> is the engine's index.\<close>

definition new_server :: "string \<Rightarrow> nat \<Rightarrow> Engine \<Rightarrow> http_Server" where
  "new_server a e eng = \<lparr>Addr = a, Handler = EngineHandler e, ReadTimeout = readTimeout eng,
     WriteTimeout = writeTimeout eng, TLSConfig = None\<rparr>"

text \<open>The type switch on \<open>cfg.HTTPProcessing\<close> in the companion task.\<close>

definition companion_handler :: "nat \<Rightarrow> iface \<Rightarrow> handler" where
  "companion_handler e processing =
     (case processing of
        StringVal d \<Rightarrow> tlsRedirectHandler d
      | HandlerVal h \<Rightarrow> CustomHandler h
      | _ \<Rightarrow> EngineHandler e)"

text \<open>
  A listener task from after \<open>srvMap.Store\<close> to its blocking serve call, for the server
  \<open>i\<close> of engine \<open>e\<close>: the timer for the readiness line (whose body only writes that
  line), then on the TLS path the TLS configuration and, when \<open>HTTPAddr\<close> is set, the
  address of the companion, which is then started; last the serve call. The answer has
  the server as it is then and the address of the companion, if one was started.
\<close>

definition begin_serve ::
  "go_error + int \<Rightarrow> nat \<Rightarrow> addrSt \<Rightarrow> http_Server \<Rightarrow>
     event list \<times> (abort + http_Server \<times> string option)" where
  "begin_serve listen i cfg s =
     (if isTls cfg then
        (let s1 = (if Config cfg \<noteq> None then s\<lparr>TLSConfig := Config cfg\<rparr> else s) in
         if HTTPAddr cfg \<noteq> [] then
           (case getPort listen (HTTPAddr cfg) of
              (evs, Inl a) \<Rightarrow> (AfterFunc 100 # evs, Inl a)
            | (evs, Inr httpAddr) \<Rightarrow>
                (AfterFunc 100 # evs @ [ListenAndServeTLS i (Cert cfg) (Key cfg)],
                 Inr (s1, Some httpAddr)))
         else ([AfterFunc 100, ListenAndServeTLS i (Cert cfg) (Key cfg)], Inr (s1, None)))
      else ([AfterFunc 100, ListenAndServe i], Inr (s, None)))"

text \<open>
  The companion task of engine \<open>e\<close> with logger \<open>lg\<close>: it writes its own readiness
  line (\<open>host\<close> is what \<open>resolveHostname\<close>, not part of the sources, makes of the
  address) and serves; when the serve call returns it writes the error.
\<close>

definition companion_start :: "string \<Rightarrow> nat \<Rightarrow> addrSt \<Rightarrow> string \<Rightarrow> string \<Rightarrow> event list" where
  "companion_start lg e cfg httpAddr host =
     [LogLine lg LogSuccess (''Listen: '' @ ''http://'' @ host),
      HttpListenAndServe httpAddr (companion_handler e (HTTPProcessing cfg))]"

definition companion_returned :: "string \<Rightarrow> go_error option \<Rightarrow> event list \<times> (abort + unit)" where
  "companion_returned lg err =
     ([LogLine lg LogError (''HTTP Listen: '' @ err_text err @ newline)], Inr ())"

text \<open>A listener task after its serve call has returned \<open>err\<close>.\<close>

definition serve_returned :: "string \<Rightarrow> go_error option \<Rightarrow> event list \<times> (abort + unit)" where
  "serve_returned lg err =
     (if err \<noteq> None \<and> err \<noteq> Some ErrServerClosed then
        ([LogLine lg LogFatal (''Listen: '' @ err_text err @ newline)], Inl ProcessExit)
      else if err \<noteq> Some ErrServerClosed then
        ([LogLine lg LogInfo (err_text err)], Inr ())
      else ([], Inr ()))"

text \<open>
  \<open>runNewProcess\<close>; \<open>err\<close> is the error \<open>zshell.RunNewProcess\<close> (not part of the
  sources) returns.
\<close>

definition runNewProcess :: "string \<Rightarrow> go_error option \<Rightarrow> event list" where
  "runNewProcess md5 err =
     (if md5 = [] then [LogLine Log LogWarn ''ignore execution file md5 check''] else [])
     @ [RunNewProcess md5]
     @ (if err \<noteq> None then [LogLine Log LogError (err_text err)] else [])"

definition restart :: "bool \<Rightarrow> pkg \<Rightarrow> go_error option \<Rightarrow> event list" where
  "restart iskill g err =
     (if \<not> iskill \<and> \<not> CloseHotRestart g then runNewProcess (fileMd5 g) err else [])"

text \<open>
  A shutdown task for the server \<open>sv\<close> of an engine with logger \<open>lg\<close>, up to its
  \<open>m.Done()\<close>; \<open>err\<close> is what \<open>Shutdown\<close> returns.
\<close>

definition shutdown_task ::
  "bool \<Rightarrow> nat option \<Rightarrow> string \<Rightarrow> nat \<Rightarrow> go_error option \<Rightarrow> event list" where
  "shutdown_task iskill ctx lg sv err =
     (if iskill then [LogLine lg LogInfo ''Shutdown server ...''] else [])
     @ [Shutdown sv ctx]
     @ (if err \<noteq> None then
          (if iskill then [LogLine lg LogError ''Timeout forced close''] else []) @ [Close sv]
        else
          (if iskill then [LogLine lg LogSuccess ''Shutdown server done''] else []))"

section \<open>Run: the tasks together\<close>

text \<open>
  \<open>Run\<close> starts one task per bind target, then its own thread and the tasks run
  interleaved. The state has the variables of \<open>Run\<close> (the wait group \<open>m\<close> is \<open>wg\<close>,
  the counter it holds), where each task stands, and what has been done so far, each
  event with the thread that did it.
\<close>

datatype listener_pc = LStart | LResolved string | LStored string | LServing string | LReturned string

record listener =
  l_engine :: nat
  l_cfg :: addrSt
  l_pc :: listener_pc
  l_srv :: "http_Server option"

datatype companion_pc = CStart | CServing | CReturned

record companion =
  c_engine :: nat
  c_cfg :: addrSt
  c_addr :: string
  c_pc :: companion_pc

datatype shutdown_pc = SStart | SStopped | SDone

record shutdown =
  s_val :: serverMap
  s_pc :: shutdown_pc

datatype main_pc =
    MLaunch "(nat \<times> addrSt) list"
  | MDeadline
  | MRestart
  | MRangeBegin
  | MRange "string list" "string list"
  | MWait
  | MCallback
  | MSleep
  | MReturned

datatype thread = Main | ListenerT nat | CompanionT nat | ShutdownT nat

record run_state =
  wg :: int
  srvMap :: "(string \<times> serverMap) list"
  iskill :: bool
  ctx :: "nat option"
  pc :: main_pc
  listeners :: "listener list"
  companions :: "companion list"
  shutdowns :: "shutdown list"
  trace :: "(thread \<times> event) list"
  exited :: bool

text \<open>
  The two loops of \<open>Run\<close> visit the engines of the registry in an order Go does not
  fix (\<open>order\<close>, the names as the \<open>range\<close> yields them) and the bind targets of each
  engine in the order of its list.
\<close>

definition bind_targets :: "pkg \<Rightarrow> string list \<Rightarrow> (nat \<times> addrSt) list" where
  "bind_targets g order =
     concat (map (\<lambda>name. case zservers g name of
                           None \<Rightarrow> []
                         | Some e \<Rightarrow> if e < length (heap g) then map (Pair e) (addrs (heap g ! e)) else [])
                 order)"

definition init_run :: "pkg \<Rightarrow> string list \<Rightarrow> run_state" where
  "init_run g order = \<lparr>wg = 0, srvMap = [], iskill = False, ctx = None,
     pc = MLaunch (bind_targets g order), listeners = [], companions = [], shutdowns = [],
     trace = [], exited = False\<rparr>"

definition elog :: "pkg \<Rightarrow> nat \<Rightarrow> string" where
  "elog g e = logPrefix (ELog (heap g ! e))"

definition emit :: "thread \<Rightarrow> event list \<Rightarrow> run_state \<Rightarrow> run_state" where
  "emit t evs s = s\<lparr>trace := trace s @ map (Pair t) evs\<rparr>"

text \<open>
  One step of one thread. A step carries what the world answers in it: the result of
  \<open>net.Listen\<close> inside \<open>getPort\<close>, the error a serve call or \<open>Shutdown\<close> returns,
  what \<open>isKill\<close> (not part of the sources) answers when it returns, the error of
  \<open>zshell.RunNewProcess\<close>. \<open>Range\<close> visits no key twice, visits every key that is in
  the map when it starts, and may or may not visit a key stored while it runs.
  \<open>m.Done()\<close> on a counter that is zero panics.
\<close>

datatype action =
    LaunchNext
  | ResolveAddr nat "go_error + int"
  | StoreServer nat
  | BeginServe nat "go_error + int"
  | ServeReturns nat "go_error option"
  | CompanionStarts nat string
  | CompanionReturns nat "go_error option"
  | KillObserved bool
  | SetDeadline
  | Restart "go_error option"
  | RangeBegin
  | RangeVisit string
  | RangeEnd
  | StopServer nat "go_error option"
  | SignalDone nat
  | WaitReturns
  | RunCallback
  | DrainSleep

fun step :: "pkg \<Rightarrow> action \<Rightarrow> run_state \<Rightarrow> run_state option" where
  "step g LaunchNext s =
     (case pc s of
        MLaunch ((e, cfg) # rest) \<Rightarrow>
          Some (s\<lparr>wg := wg s + 1,
                  listeners := listeners s @ [\<lparr>l_engine = e, l_cfg = cfg, l_pc = LStart, l_srv = None\<rparr>],
                  pc := MLaunch rest\<rparr>)
      | _ \<Rightarrow> None)"
| "step g (ResolveAddr i listen) s =
     (if i < length (listeners s) \<and> l_pc (listeners s ! i) = LStart then
        (case getPort listen (addr (l_cfg (listeners s ! i))) of
           (evs, Inl a) \<Rightarrow> Some (emit (ListenerT i) evs (s\<lparr>exited := True\<rparr>))
         | (evs, Inr a) \<Rightarrow>
             Some (emit (ListenerT i) evs
                     (s\<lparr>listeners := (listeners s)[i := (listeners s ! i)\<lparr>l_pc := LResolved a\<rparr>]\<rparr>)))
      else None)"
| "step g (StoreServer i) s =
     (if i < length (listeners s) then
        (case l_pc (listeners s ! i) of
           LResolved a \<Rightarrow>
             (let l = listeners s ! i; e = l_engine l in
              Some (emit (ListenerT i) [Store a e i]
                      (s\<lparr>listeners := (listeners s)
                             [i := l\<lparr>l_pc := LStored a, l_srv := Some (new_server a e (heap g ! e))\<rparr>],
                          srvMap := AList.update a \<lparr>engine = e, srv = i\<rparr> (srvMap s)\<rparr>)))
         | _ \<Rightarrow> None)
      else None)"
| "step g (BeginServe i listen) s =
     (if i < length (listeners s) then
        (case (l_pc (listeners s ! i), l_srv (listeners s ! i)) of
           (LStored a, Some sv) \<Rightarrow>
             (let l = listeners s ! i in
              case begin_serve listen i (l_cfg l) sv of
                (evs, Inl x) \<Rightarrow> Some (emit (ListenerT i) evs (s\<lparr>exited := True\<rparr>))
              | (evs, Inr (sv', started)) \<Rightarrow>
                  Some (emit (ListenerT i) evs
                          (s\<lparr>listeners := (listeners s)[i := l\<lparr>l_pc := LServing a, l_srv := Some sv'\<rparr>],
                              companions := companions s @
                                (case started of
                                   None \<Rightarrow> []
                                 | Some httpAddr \<Rightarrow>
                                     [\<lparr>c_engine = l_engine l, c_cfg = l_cfg l, c_addr = httpAddr,
                                       c_pc = CStart\<rparr>])\<rparr>)))
         | _ \<Rightarrow> None)
      else None)"
| "step g (ServeReturns i err) s =
     (if i < length (listeners s) then
        (case l_pc (listeners s ! i) of
           LServing a \<Rightarrow>
             (case serve_returned (elog g (l_engine (listeners s ! i))) err of
                (evs, Inl x) \<Rightarrow> Some (emit (ListenerT i) evs (s\<lparr>exited := True\<rparr>))
              | (evs, Inr u) \<Rightarrow>
                  Some (emit (ListenerT i) evs
                          (s\<lparr>listeners := (listeners s)[i := (listeners s ! i)\<lparr>l_pc := LReturned a\<rparr>]\<rparr>)))
         | _ \<Rightarrow> None)
      else None)"
| "step g (CompanionStarts k host) s =
     (if k < length (companions s) \<and> c_pc (companions s ! k) = CStart then
        (let c = companions s ! k in
         Some (emit (CompanionT k)
                 (companion_start (elog g (c_engine c)) (c_engine c) (c_cfg c) (c_addr c) host)
                 (s\<lparr>companions := (companions s)[k := c\<lparr>c_pc := CServing\<rparr>]\<rparr>)))
      else None)"
| "step g (CompanionReturns k err) s =
     (if k < length (companions s) \<and> c_pc (companions s ! k) = CServing then
        (let c = companions s ! k in
         case companion_returned (elog g (c_engine c)) err of
           (evs, Inl x) \<Rightarrow> Some (emit (CompanionT k) evs (s\<lparr>exited := True\<rparr>))
         | (evs, Inr u) \<Rightarrow>
             Some (emit (CompanionT k) evs
                     (s\<lparr>companions := (companions s)[k := c\<lparr>c_pc := CReturned\<rparr>]\<rparr>)))
      else None)"
| "step g (KillObserved b) s =
     (case pc s of
        MLaunch [] \<Rightarrow> Some (emit Main [IsKill b] (s\<lparr>iskill := b, pc := MDeadline\<rparr>))
      | _ \<Rightarrow> None)"
| "step g SetDeadline s =
     (case pc s of
        MDeadline \<Rightarrow> Some (emit Main [WithTimeout 20] (s\<lparr>ctx := Some 20, pc := MRestart\<rparr>))
      | _ \<Rightarrow> None)"
| "step g (Restart err) s =
     (case pc s of
        MRestart \<Rightarrow> Some (emit Main (restart (iskill s) g err) (s\<lparr>pc := MRangeBegin\<rparr>))
      | _ \<Rightarrow> None)"
| "step g RangeBegin s =
     (case pc s of
        MRangeBegin \<Rightarrow> Some (s\<lparr>pc := MRange (map fst (srvMap s)) []\<rparr>)
      | _ \<Rightarrow> None)"
| "step g (RangeVisit k) s =
     (case pc s of
        MRange start visited \<Rightarrow>
          (if k \<in> set visited then None
           else case map_of (srvMap s) k of
                  None \<Rightarrow> None
                | Some v \<Rightarrow>
                    Some (s\<lparr>shutdowns := shutdowns s @ [\<lparr>s_val = v, s_pc = SStart\<rparr>],
                            pc := MRange start (k # visited)\<rparr>))
      | _ \<Rightarrow> None)"
| "step g RangeEnd s =
     (case pc s of
        MRange start visited \<Rightarrow> if set start \<subseteq> set visited then Some (s\<lparr>pc := MWait\<rparr>) else None
      | _ \<Rightarrow> None)"
| "step g (StopServer j err) s =
     (if j < length (shutdowns s) \<and> s_pc (shutdowns s ! j) = SStart then
        (let t = shutdowns s ! j in
         Some (emit (ShutdownT j)
                 (shutdown_task (iskill s) (ctx s) (elog g (engine (s_val t))) (srv (s_val t)) err)
                 (s\<lparr>shutdowns := (shutdowns s)[j := t\<lparr>s_pc := SStopped\<rparr>]\<rparr>)))
      else None)"
| "step g (SignalDone j) s =
     (if j < length (shutdowns s) \<and> s_pc (shutdowns s ! j) = SStopped then
        (if wg s \<le> 0 then Some (s\<lparr>exited := True\<rparr>)
         else Some (emit (ShutdownT j) [Done]
                      (s\<lparr>wg := wg s - 1,
                          shutdowns := (shutdowns s)[j := (shutdowns s ! j)\<lparr>s_pc := SDone\<rparr>]\<rparr>)))
      else None)"
| "step g WaitReturns s =
     (case pc s of
        MWait \<Rightarrow> if wg s = 0 then Some (emit Main [Wait] (s\<lparr>pc := MCallback\<rparr>)) else None
      | _ \<Rightarrow> None)"
| "step g RunCallback s =
     (case pc s of
        MCallback \<Rightarrow>
          Some (emit Main (if ShutdownDone g then [CallShutdownDone] else []) (s\<lparr>pc := MSleep\<rparr>))
      | _ \<Rightarrow> None)"
| "step g DrainSleep s =
     (case pc s of
        MSleep \<Rightarrow> Some (emit Main [Sleep 100, Cancel] (s\<lparr>pc := MReturned\<rparr>))
      | _ \<Rightarrow> None)"

text \<open>Nothing runs once the process has ended.\<close>

definition next_state :: "pkg \<Rightarrow> action \<Rightarrow> run_state \<Rightarrow> run_state option" where
  "next_state g a s = (if exited s then None else step g a s)"

fun run :: "pkg \<Rightarrow> action list \<Rightarrow> run_state \<Rightarrow> run_state option" where
  "run g [] s = Some s"
| "run g (a # as) s = (case next_state g a s of None \<Rightarrow> None | Some s' \<Rightarrow> run g as s')"

text \<open>The states \<open>Run\<close> can be in after some steps from its start.\<close>

definition reachable :: "pkg \<Rightarrow> string list \<Rightarrow> run_state \<Rightarrow> bool" where
  "reachable g order s = (\<exists>as. run g as (init_run g order) = Some s)"

text \<open>Where the main thread stands: behind \<open>m.Wait()\<close>, and back in the caller.\<close>

definition past_wait :: "run_state \<Rightarrow> bool" where
  "past_wait s = (pc s = MCallback \<or> pc s = MSleep \<or> pc s = MReturned)"

text \<open>The address a listener task has resolved, and the one it has stored.\<close>

definition resolved_addr :: "listener \<Rightarrow> string option" where
  "resolved_addr l =
     (case l_pc l of
        LStart \<Rightarrow> None
      | LResolved a \<Rightarrow> Some a
      | LStored a \<Rightarrow> Some a
      | LServing a \<Rightarrow> Some a
      | LReturned a \<Rightarrow> Some a)"

definition stored_addr :: "listener \<Rightarrow> string option" where
  "stored_addr l =
     (case l_pc l of
        LStart \<Rightarrow> None
      | LResolved a \<Rightarrow> None
      | LStored a \<Rightarrow> Some a
      | LServing a \<Rightarrow> Some a
      | LReturned a \<Rightarrow> Some a)"

definition done_count :: "shutdown list \<Rightarrow> nat" where
  "done_count ts = length (filter (\<lambda>t. s_pc t = SDone) ts)"

text \<open>The events of one thread, in order.\<close>

definition events_of :: "thread \<Rightarrow> (thread \<times> event) list \<Rightarrow> event list" where
  "events_of t tr = map snd (filter (\<lambda>x. fst x = t) tr)"

section \<open>Run: what the states are measured by\<close>

text \<open>The addresses the listener tasks have stored in \<open>srvMap\<close> so far.\<close>

definition stored_set :: "listener list \<Rightarrow> string set" where
  "stored_set ls = {a. \<exists>i < length ls. stored_addr (ls ! i) = Some a}"

text \<open>The keys of \<open>srvMap\<close> are those addresses, each once.\<close>

definition keys_ok :: "(string \<times> serverMap) list \<Rightarrow> listener list \<Rightarrow> bool" where
  "keys_ok mp ls = (distinct (map fst mp) \<and> set (map fst mp) = stored_set ls)"

text \<open>
  Shutdown tasks exist only from \<open>Range\<close> on, one for each key visited, and never more
  than \<open>srvMap\<close> has entries.
\<close>

definition range_ok :: "main_pc \<Rightarrow> (string \<times> serverMap) list \<Rightarrow> shutdown list \<Rightarrow> bool" where
  "range_ok p mp ts =
     (length ts \<le> length mp \<and>
      (case p of
         MLaunch rest \<Rightarrow> ts = []
       | MDeadline \<Rightarrow> ts = []
       | MRestart \<Rightarrow> ts = []
       | MRangeBegin \<Rightarrow> ts = []
       | MRange start visited \<Rightarrow>
           distinct visited \<and> set visited \<subseteq> set (map fst mp) \<and> length ts = length visited
       | _ \<Rightarrow> True))"

text \<open>The counter of the wait group: one up per task started, one down per \<open>Done\<close>.\<close>

definition wg_inv :: "run_state \<Rightarrow> bool" where
  "wg_inv s = (wg s = int (length (listeners s)) - int (done_count (shutdowns s)))"

definition keys_inv :: "run_state \<Rightarrow> bool" where
  "keys_inv s = keys_ok (srvMap s) (listeners s)"

definition range_inv :: "run_state \<Rightarrow> bool" where
  "range_inv s = range_ok (pc s) (srvMap s) (shutdowns s)"

definition wait_inv :: "run_state \<Rightarrow> bool" where
  "wait_inv s = (past_wait s \<longrightarrow> wg s = 0)"

text \<open>The bind targets still to be started, while the loops of \<open>Run\<close> run.\<close>

definition to_launch :: "main_pc \<Rightarrow> (nat \<times> addrSt) list" where
  "to_launch p = (case p of MLaunch rest \<Rightarrow> rest | _ \<Rightarrow> [])"

definition target_of :: "listener \<Rightarrow> nat \<times> addrSt" where
  "target_of l = (l_engine l, l_cfg l)"

definition launch_inv :: "pkg \<Rightarrow> string list \<Rightarrow> run_state \<Rightarrow> bool" where
  "launch_inv g order s = (map target_of (listeners s) @ to_launch (pc s) = bind_targets g order)"

text \<open>
  The events of the join: every \<open>m.Done()\<close>, the return of \<open>m.Wait()\<close>, the call of
  the callback and the sleep. \<open>main_tail\<close> is what the main thread has added to them
  when it stands at \<open>p\<close>.
\<close>

definition is_barrier :: "event \<Rightarrow> bool" where
  "is_barrier ev =
     (case ev of Done \<Rightarrow> True | Wait \<Rightarrow> True | CallShutdownDone \<Rightarrow> True | Sleep d \<Rightarrow> True
      | _ \<Rightarrow> False)"

definition main_tail :: "pkg \<Rightarrow> main_pc \<Rightarrow> event list" where
  "main_tail g p =
     (case p of
        MCallback \<Rightarrow> [Wait]
      | MSleep \<Rightarrow> Wait # (if ShutdownDone g then [CallShutdownDone] else [])
      | MReturned \<Rightarrow> Wait # (if ShutdownDone g then [CallShutdownDone] else []) @ [Sleep 100]
      | _ \<Rightarrow> [])"

definition barrier_inv :: "pkg \<Rightarrow> run_state \<Rightarrow> bool" where
  "barrier_inv g s =
     (filter is_barrier (map snd (trace s)) =
        replicate (done_count (shutdowns s)) Done @ main_tail g (pc s))"

text \<open>The calls of \<open>zshell.RunNewProcess\<close>, and where the main thread is past them.\<close>

definition is_spawn :: "event \<Rightarrow> bool" where
  "is_spawn ev = (case ev of RunNewProcess md5 \<Rightarrow> True | _ \<Rightarrow> False)"

definition after_restart :: "main_pc \<Rightarrow> bool" where
  "after_restart p =
     (case p of MLaunch rest \<Rightarrow> False | MDeadline \<Rightarrow> False | MRestart \<Rightarrow> False | _ \<Rightarrow> True)"

definition spawn_inv :: "pkg \<Rightarrow> run_state \<Rightarrow> bool" where
  "spawn_inv g s =
     (filter is_spawn (map snd (trace s)) =
        (if after_restart (pc s) \<and> \<not> iskill s \<and> \<not> CloseHotRestart g
         then [RunNewProcess (fileMd5 g)] else []))"

text \<open>The deadline: where it is made, and the \<open>Shutdown\<close> calls that use another.\<close>

definition is_deadline :: "event \<Rightarrow> bool" where
  "is_deadline ev = (case ev of WithTimeout d \<Rightarrow> True | _ \<Rightarrow> False)"

definition after_deadline :: "main_pc \<Rightarrow> bool" where
  "after_deadline p = (case p of MLaunch rest \<Rightarrow> False | MDeadline \<Rightarrow> False | _ \<Rightarrow> True)"

definition other_deadline :: "event \<Rightarrow> bool" where
  "other_deadline ev = (case ev of Shutdown sv c \<Rightarrow> c \<noteq> Some 20 | _ \<Rightarrow> False)"

definition deadline_inv :: "run_state \<Rightarrow> bool" where
  "deadline_inv s =
     (filter is_deadline (map snd (trace s)) = (if after_deadline (pc s) then [WithTimeout 20] else [])
      \<and> ctx s = (if after_deadline (pc s) then Some 20 else None)
      \<and> filter other_deadline (map snd (trace s)) = [])"

text \<open>
  The store into \<open>srvMap\<close> and the serve call among the events of a listener task, and
  what they are for a task that stands at a given place.
\<close>

definition is_reg_or_serve :: "event \<Rightarrow> bool" where
  "is_reg_or_serve ev =
     (case ev of Store a e i \<Rightarrow> True | ListenAndServe i \<Rightarrow> True | ListenAndServeTLS i c k \<Rightarrow> True
      | _ \<Rightarrow> False)"

definition serve_call :: "nat \<Rightarrow> addrSt \<Rightarrow> event" where
  "serve_call i cfg = (if isTls cfg then ListenAndServeTLS i (Cert cfg) (Key cfg) else ListenAndServe i)"

definition expected_calls :: "nat \<Rightarrow> listener \<Rightarrow> event list" where
  "expected_calls i l =
     (case l_pc l of
        LStart \<Rightarrow> []
      | LResolved a \<Rightarrow> []
      | LStored a \<Rightarrow> [Store a (l_engine l) i]
      | LServing a \<Rightarrow> [Store a (l_engine l) i, serve_call i (l_cfg l)]
      | LReturned a \<Rightarrow> [Store a (l_engine l) i, serve_call i (l_cfg l)])"

definition order_inv :: "run_state \<Rightarrow> bool" where
  "order_inv s =
     (\<forall>i. filter is_reg_or_serve (events_of (ListenerT i) (trace s)) =
          (if i < length (listeners s) then expected_calls i (listeners s ! i) else []))"

text \<open>Two listener tasks have resolved the same address.\<close>

definition duplicate_addr :: "listener list \<Rightarrow> bool" where
  "duplicate_addr ls =
     (\<exists>i < length ls. \<exists>j < length ls. i \<noteq> j \<and> resolved_addr (ls ! i) \<noteq> None
        \<and> resolved_addr (ls ! i) = resolved_addr (ls ! j))"

section \<open>Three configurations and runs of them\<close>

text \<open>
  One engine under the default name with its default bind target, and the callback set;
  the same engine after \<open>AddAddr\<close> with the address it already has; and the same
  engine with one TLS bind target that has a plaintext address and a redirect domain.
\<close>

definition example_pkg :: pkg where
  "example_pkg =
     (case New [] (init_pkg ''f00d'') of
        (evs, Inr (e, g)) \<Rightarrow> g\<lparr>ShutdownDone := True\<rparr>
      | (evs, Inl x) \<Rightarrow> init_pkg ''f00d'')"

definition twice_pkg :: pkg where
  "twice_pkg = example_pkg\<lparr>heap := map (AddAddr defaultAddr) (heap example_pkg)\<rparr>"

definition tls_target :: addrSt where
  "tls_target = \<lparr>Cert = ''cert.pem'', Key = ''key.pem'', HTTPAddr = ''80'',
     HTTPProcessing = StringVal ''example.com'', Config = None, addr = '':443''\<rparr>"

definition tls_pkg :: pkg where
  "tls_pkg = example_pkg\<lparr>heap := map (\<lambda>e. e\<lparr>addrs := [tls_target]\<rparr>) (heap example_pkg)\<rparr>"

text \<open>
  A run of the first to its end, on a restart. A run of the second on a kill, up to
  where its only shutdown task has signalled and the server it stopped has returned.
  A run of the third up to where the companion serves.
\<close>

definition example_schedule :: "action list" where
  "example_schedule =
     [LaunchNext, ResolveAddr 0 (Inr 0), StoreServer 0, BeginServe 0 (Inr 0),
      KillObserved False, SetDeadline, Restart None, RangeBegin, RangeVisit '':3788'', RangeEnd,
      StopServer 0 None, SignalDone 0, ServeReturns 0 (Some ErrServerClosed),
      WaitReturns, RunCallback, DrainSleep]"

definition twice_schedule :: "action list" where
  "twice_schedule =
     [LaunchNext, LaunchNext, ResolveAddr 0 (Inr 0), StoreServer 0, ResolveAddr 1 (Inr 0),
      StoreServer 1, BeginServe 0 (Inr 0), BeginServe 1 (Inr 0),
      KillObserved True, SetDeadline, Restart None, RangeBegin, RangeVisit '':3788'', RangeEnd,
      StopServer 0 (Some (OtherError ''context deadline exceeded'')), SignalDone 0,
      ServeReturns 1 (Some ErrServerClosed)]"

definition tls_schedule :: "action list" where
  "tls_schedule =
     [LaunchNext, ResolveAddr 0 (Inr 0), StoreServer 0, BeginServe 0 (Inr 0),
      CompanionStarts 0 ''localhost:80'']"

section \<open>Address resolution: properties\<close>

lemma Contains_single: "Contains s [c] = (c \<in> set s)"
  by (induction s) auto

lemma digits_numeric: "set (digits n) \<subseteq> set ''0123456789''"
proof (induction n rule: digits.induct)
  case (1 n)
  have d: "\<And>k. k < 10 \<Longrightarrow> digit_char k \<in> set ''0123456789''"
    unfolding digit_char_def by (rule nth_mem) simp
  show ?case
  proof (cases "n < 10")
    case True
    then show ?thesis using d [of n] by (subst digits.simps) simp
  next
    case False
    have "digit_char (n mod 10) \<in> set ''0123456789''"
      by (rule d) simp
    then show ?thesis using False "1.IH"
      by (subst digits.simps) simp
  qed
qed

lemma digits_not_Nil: "digits n \<noteq> []"
  by (subst digits.simps) simp

text \<open>
  C3 (as the code has it). An address without \<open>:\<close> other than \<open>0\<close> gets \<open>:\<close>
  prepended; an address with \<open>:\<close> other than \<open>:0\<close> comes back unchanged; neither
  touches the network. Both \<open>:0\<close> and \<open>0\<close> open a throwaway listener, close it at once
  and answer \<open>:\<close> followed by the decimal digits of the port the system gave; when the
  listener cannot be opened, a fatal line is logged and the process ends.
\<close>

theorem getPort_resolution:
  "(\<not> Contains a '':'' \<and> a \<noteq> ''0'' \<longrightarrow> getPort l a = ([], Inr ('':'' @ a)))
   \<and> (Contains a '':'' \<and> a \<noteq> '':0'' \<longrightarrow> getPort l a = ([], Inr a))
   \<and> (a = '':0'' \<or> a = ''0'' \<longrightarrow>
        getPort (Inr p) a = ([NetListen ''tcp'' '':0'', ListenerClose], Inr ('':'' @ Itoa p))
        \<and> (0 \<le> p \<longrightarrow> Itoa p \<noteq> [] \<and> set (Itoa p) \<subseteq> set ''0123456789'')
        \<and> getPort (Inl e) a =
            ([NetListen ''tcp'' '':0'', LogLine Log LogFatal (''Listen: '' @ Error_str e @ newline)],
             Inl ProcessExit))"
proof (intro conjI impI)
  assume "\<not> Contains a '':'' \<and> a \<noteq> ''0''"
  then show "getPort l a = ([], Inr ('':'' @ a))"
    by (simp add: getPort_def)
next
  assume "Contains a '':'' \<and> a \<noteq> '':0''"
  then show "getPort l a = ([], Inr a)"
    by (simp add: getPort_def)
next
  assume "a = '':0'' \<or> a = ''0''"
  then show "getPort (Inr p) a = ([NetListen ''tcp'' '':0'', ListenerClose], Inr ('':'' @ Itoa p))"
    by (auto simp: getPort_def)
next
  assume "0 \<le> p"
  then show "Itoa p \<noteq> []"
    by (simp add: Itoa_def digits_not_Nil)
next
  assume "0 \<le> p"
  then show "set (Itoa p) \<subseteq> set ''0123456789''"
    using digits_numeric [of "nat p"] by (simp add: Itoa_def)
next
  assume "a = '':0'' \<or> a = ''0''"
  then show "getPort (Inl e) a =
      ([NetListen ''tcp'' '':0'', LogLine Log LogFatal (''Listen: '' @ Error_str e @ newline)],
       Inl ProcessExit)"
    by (auto simp: getPort_def)
qed

theorem getPort_resolution_witness:
  "getPort (Inr 40000) ''8080'' = ([], Inr '':8080'')
   \<and> getPort (Inr 40000) ''127.0.0.1:9090'' = ([], Inr ''127.0.0.1:9090'')
   \<and> getPort (Inr 40000) '':0'' = ([NetListen ''tcp'' '':0'', ListenerClose], Inr '':40000'')
   \<and> getPort (Inl (OtherError ''denied'')) ''0'' =
        ([NetListen ''tcp'' '':0'', LogLine Log LogFatal (''Listen: denied'' @ newline)],
         Inl ProcessExit)"
proof -
  have i: "Itoa 40000 = ''40000''"
    by (simp add: Itoa_def digits.simps digit_char_def)
  have c1: "\<not> Contains ''8080'' '':''" and c2: "Contains ''127.0.0.1:9090'' '':''"
    by (simp_all add: Contains_single)
  show ?thesis
    using getPort_resolution [of "''8080''" "Inr 40000" 40000 "OtherError ''denied''"]
      getPort_resolution [of "''127.0.0.1:9090''" "Inr 40000" 40000 "OtherError ''denied''"]
      getPort_resolution [of "'':0''" "Inr 40000" 40000 "OtherError ''denied''"]
      getPort_resolution [of "''0''" "Inr 40000" 40000 "OtherError ''denied''"]
      i c1 c2
    by simp
qed

text \<open>
  The address \<open>0\<close> has no \<open>:\<close>, yet the answer is not \<open>:0\<close>: the prefixed form is the
  one compared against \<open>:0\<close>, so it too is replaced by the port of the system.
\<close>

theorem getPort_bare_zero_counterexample:
  "\<not> Contains ''0'' '':'' \<and> snd (getPort (Inr 40000) ''0'') = Inr '':40000''
   \<and> snd (getPort (Inr 40000) ''0'') \<noteq> Inr ('':'' @ ''0'')"
proof -
  have i: "Itoa 40000 = ''40000''"
    by (simp add: Itoa_def digits.simps digit_char_def)
  show ?thesis
    by (simp add: getPort_def i)
qed

section \<open>The registry: properties\<close>

lemma New_present:
  "zservers g (serverName_arg sn) \<noteq> None \<Longrightarrow>
   New sn g = ([LogLine Log LogFatal (''serverName: '' @ serverName_arg sn @ '' is has'')],
               Inl ProcessExit)"
  by (simp add: New_def Let_def)

lemma New_absent:
  "zservers g (serverName_arg sn) = None \<Longrightarrow>
   New sn g = ([], Inr (length (heap g),
     g\<lparr>zservers := (zservers g)(serverName_arg sn \<mapsto> length (heap g)),
        heap := heap g @
          [\<lparr>ELog = \<lparr>logPrefix = ''['' @ serverName_arg sn @ ''] '', logLevel = LogInfo\<rparr>,
            readTimeout = 0, writeTimeout = 0, webModeName = ''prod'', webMode = 0,
            ShowFavicon = False, MaxMultipartMemory = 33554432, BindTag = ''json'',
            customMethodType = [],
            addrs = [\<lparr>Cert = [], Key = [], HTTPAddr = [], HTTPProcessing = Nil, Config = None,
                      addr = '':3788''\<rparr>],
            BindStructDelimiter = pkgBindStructDelimiter g,
            BindStructSuffix = pkgBindStructSuffix g\<rparr>]\<rparr>))"
  by (simp add: New_def Let_def ProdMode_def prodCode_def defaultMultipartMemory_def
      defaultBindTag_def defaultAddr_def)

lemma serverName_arg_single: "serverName_arg [serverName_arg sn] = serverName_arg sn"
  by (simp add: serverName_arg_def)

lemma Server_present:
  "zservers g (serverName_arg sn) = Some r \<Longrightarrow> Server sn g = ([], Inr ((r, True), g))"
  by (simp add: Server_def Let_def)

lemma Server_absent:
  "zservers g (serverName_arg sn) = None \<Longrightarrow> New sn g = ([], Inr (r, g')) \<Longrightarrow>
   Server sn g = ([LogLine Log LogWarn (''serverName: '' @ serverName_arg sn @ '' is not'')],
                  Inr ((r, False), g'))"
  by (auto simp: Server_def New_def Let_def serverName_arg_single)

text \<open>
  C4. The name of a call is the first name given, and \<open>Z\<close> when none is given.
  \<open>New\<close> under a name that is registered logs a fatal line and ends the process,
  leaving no new state. \<open>New\<close> under a free name appends a new engine with the default
  settings to the heap and registers it under that name, leaving every other name as it
  is. \<open>Server\<close> under a registered name answers that engine and changes nothing; under
  a free name it logs a warning and does what \<open>New\<close> does. Under two distinct free
  names two calls of \<open>New\<close> succeed, give two different engines, and \<open>Server\<close>
  afterwards answers each name with its own engine.
\<close>

theorem registry_unique_names:
  "serverName_arg [] = ''Z'' \<and> serverName_arg (n # ns) = n
   \<and> (let name = serverName_arg sn;
           e = \<lparr>ELog = \<lparr>logPrefix = ''['' @ name @ ''] '', logLevel = LogInfo\<rparr>,
                readTimeout = 0, writeTimeout = 0, webModeName = ''prod'', webMode = 0,
                ShowFavicon = False, MaxMultipartMemory = 33554432, BindTag = ''json'',
                customMethodType = [],
                addrs = [\<lparr>Cert = [], Key = [], HTTPAddr = [], HTTPProcessing = Nil,
                          Config = None, addr = '':3788''\<rparr>],
                BindStructDelimiter = pkgBindStructDelimiter g,
                BindStructSuffix = pkgBindStructSuffix g\<rparr>;
           g' = g\<lparr>zservers := (zservers g)(name \<mapsto> length (heap g)), heap := heap g @ [e]\<rparr>
       in (zservers g name \<noteq> None \<longrightarrow>
             New sn g = ([LogLine Log LogFatal (''serverName: '' @ name @ '' is has'')],
                         Inl ProcessExit))
          \<and> (zservers g name = None \<longrightarrow>
               New sn g = ([], Inr (length (heap g), g'))
               \<and> Server sn g = ([LogLine Log LogWarn (''serverName: '' @ name @ '' is not'')],
                                Inr ((length (heap g), False), g')))
          \<and> (zservers g name = Some r \<longrightarrow> Server sn g = ([], Inr ((r, True), g))))
   \<and> (zservers g (serverName_arg sa) = None \<and> zservers g (serverName_arg sb) = None
        \<and> serverName_arg sa \<noteq> serverName_arg sb \<longrightarrow>
        (\<exists>ra ga rb gb.
           New sa g = ([], Inr (ra, ga)) \<and> New sb ga = ([], Inr (rb, gb)) \<and> ra \<noteq> rb
           \<and> Server sa gb = ([], Inr ((ra, True), gb))
           \<and> Server sb gb = ([], Inr ((rb, True), gb))
           \<and> ra < length (heap gb) \<and> rb < length (heap gb)
           \<and> logPrefix (ELog (heap gb ! ra)) = ''['' @ serverName_arg sa @ ''] ''
           \<and> logPrefix (ELog (heap gb ! rb)) = ''['' @ serverName_arg sb @ ''] ''
           \<and> zservers gb = (zservers g)(serverName_arg sa \<mapsto> ra, serverName_arg sb \<mapsto> rb)))"
proof (intro conjI)
  show "serverName_arg [] = ''Z''"
    by (simp add: serverName_arg_def defaultServerName_def)
  show "serverName_arg (n # ns) = n"
    by (simp add: serverName_arg_def)
  show "let name = serverName_arg sn;
           e = \<lparr>ELog = \<lparr>logPrefix = ''['' @ name @ ''] '', logLevel = LogInfo\<rparr>,
                readTimeout = 0, writeTimeout = 0, webModeName = ''prod'', webMode = 0,
                ShowFavicon = False, MaxMultipartMemory = 33554432, BindTag = ''json'',
                customMethodType = [],
                addrs = [\<lparr>Cert = [], Key = [], HTTPAddr = [], HTTPProcessing = Nil,
                          Config = None, addr = '':3788''\<rparr>],
                BindStructDelimiter = pkgBindStructDelimiter g,
                BindStructSuffix = pkgBindStructSuffix g\<rparr>;
           g' = g\<lparr>zservers := (zservers g)(name \<mapsto> length (heap g)), heap := heap g @ [e]\<rparr>
       in (zservers g name \<noteq> None \<longrightarrow>
             New sn g = ([LogLine Log LogFatal (''serverName: '' @ name @ '' is has'')],
                         Inl ProcessExit))
          \<and> (zservers g name = None \<longrightarrow>
               New sn g = ([], Inr (length (heap g), g'))
               \<and> Server sn g = ([LogLine Log LogWarn (''serverName: '' @ name @ '' is not'')],
                                Inr ((length (heap g), False), g')))
          \<and> (zservers g name = Some r \<longrightarrow> Server sn g = ([], Inr ((r, True), g)))"
    unfolding Let_def
  proof (intro conjI impI)
    assume "zservers g (serverName_arg sn) \<noteq> None"
    then show "New sn g = ([LogLine Log LogFatal (''serverName: '' @ serverName_arg sn @ '' is has'')],
        Inl ProcessExit)"
      by (rule New_present)
  next
    assume h: "zservers g (serverName_arg sn) = None"
    show "New sn g = ([], Inr (length (heap g),
       g\<lparr>zservers := (zservers g)(serverName_arg sn \<mapsto> length (heap g)),
          heap := heap g @
            [\<lparr>ELog = \<lparr>logPrefix = ''['' @ serverName_arg sn @ ''] '', logLevel = LogInfo\<rparr>,
              readTimeout = 0, writeTimeout = 0, webModeName = ''prod'', webMode = 0,
              ShowFavicon = False, MaxMultipartMemory = 33554432, BindTag = ''json'',
              customMethodType = [],
              addrs = [\<lparr>Cert = [], Key = [], HTTPAddr = [], HTTPProcessing = Nil, Config = None,
                        addr = '':3788''\<rparr>],
              BindStructDelimiter = pkgBindStructDelimiter g,
              BindStructSuffix = pkgBindStructSuffix g\<rparr>]\<rparr>))"
      using h by (rule New_absent)
    then show "Server sn g = ([LogLine Log LogWarn (''serverName: '' @ serverName_arg sn @ '' is not'')],
       Inr ((length (heap g), False),
       g\<lparr>zservers := (zservers g)(serverName_arg sn \<mapsto> length (heap g)),
          heap := heap g @
            [\<lparr>ELog = \<lparr>logPrefix = ''['' @ serverName_arg sn @ ''] '', logLevel = LogInfo\<rparr>,
              readTimeout = 0, writeTimeout = 0, webModeName = ''prod'', webMode = 0,
              ShowFavicon = False, MaxMultipartMemory = 33554432, BindTag = ''json'',
              customMethodType = [],
              addrs = [\<lparr>Cert = [], Key = [], HTTPAddr = [], HTTPProcessing = Nil, Config = None,
                        addr = '':3788''\<rparr>],
              BindStructDelimiter = pkgBindStructDelimiter g,
              BindStructSuffix = pkgBindStructSuffix g\<rparr>]\<rparr>))"
      by (rule Server_absent [OF h])
  next
    assume "zservers g (serverName_arg sn) = Some r"
    then show "Server sn g = ([], Inr ((r, True), g))"
      by (rule Server_present)
  qed
  show "zservers g (serverName_arg sa) = None \<and> zservers g (serverName_arg sb) = None
        \<and> serverName_arg sa \<noteq> serverName_arg sb \<longrightarrow>
        (\<exists>ra ga rb gb.
           New sa g = ([], Inr (ra, ga)) \<and> New sb ga = ([], Inr (rb, gb)) \<and> ra \<noteq> rb
           \<and> Server sa gb = ([], Inr ((ra, True), gb))
           \<and> Server sb gb = ([], Inr ((rb, True), gb))
           \<and> ra < length (heap gb) \<and> rb < length (heap gb)
           \<and> logPrefix (ELog (heap gb ! ra)) = ''['' @ serverName_arg sa @ ''] ''
           \<and> logPrefix (ELog (heap gb ! rb)) = ''['' @ serverName_arg sb @ ''] ''
           \<and> zservers gb = (zservers g)(serverName_arg sa \<mapsto> ra, serverName_arg sb \<mapsto> rb))"
  proof
    assume h: "zservers g (serverName_arg sa) = None \<and> zservers g (serverName_arg sb) = None
        \<and> serverName_arg sa \<noteq> serverName_arg sb"
    let ?a = "serverName_arg sa" and ?b = "serverName_arg sb"
    from h have ha: "zservers g ?a = None" and ab: "?b \<noteq> ?a"
      by auto
    obtain ea where na: "New sa g = ([], Inr (length (heap g),
          g\<lparr>zservers := (zservers g)(?a \<mapsto> length (heap g)), heap := heap g @ [ea]\<rparr>))"
      and pa: "logPrefix (ELog ea) = ''['' @ ?a @ ''] ''"
      using New_absent [OF ha] by simp
    define ga where "ga = g\<lparr>zservers := (zservers g)(?a \<mapsto> length (heap g)), heap := heap g @ [ea]\<rparr>"
    have fb: "zservers ga ?b = None"
      using h ab by (simp add: ga_def)
    obtain eb where nb: "New sb ga = ([], Inr (length (heap ga),
          ga\<lparr>zservers := (zservers ga)(?b \<mapsto> length (heap ga)), heap := heap ga @ [eb]\<rparr>))"
      and pb: "logPrefix (ELog eb) = ''['' @ ?b @ ''] ''"
      using New_absent [OF fb] by simp
    define gb where "gb = ga\<lparr>zservers := (zservers ga)(?b \<mapsto> length (heap ga)), heap := heap ga @ [eb]\<rparr>"
    have za: "zservers gb ?a = Some (length (heap g))"
      using ab by (simp add: gb_def ga_def)
    have zb: "zservers gb ?b = Some (length (heap ga))"
      by (simp add: gb_def)
    have hg: "heap gb = heap g @ [ea, eb]"
      by (simp add: gb_def ga_def)
    have lga: "length (heap ga) = Suc (length (heap g))"
      by (simp add: ga_def)
    have "New sa g = ([], Inr (length (heap g), ga))"
      using na by (simp add: ga_def)
    moreover have "New sb ga = ([], Inr (length (heap ga), gb))"
      using nb by (simp add: gb_def)
    moreover have "length (heap g) \<noteq> length (heap ga)"
      by (simp add: lga)
    moreover have "Server sa gb = ([], Inr ((length (heap g), True), gb))"
      using za by (rule Server_present)
    moreover have "Server sb gb = ([], Inr ((length (heap ga), True), gb))"
      using zb by (rule Server_present)
    moreover have "length (heap g) < length (heap gb)" "length (heap ga) < length (heap gb)"
      by (simp_all add: hg lga)
    moreover have "logPrefix (ELog (heap gb ! length (heap g))) = ''['' @ ?a @ ''] ''"
      using pa by (simp add: hg)
    moreover have "logPrefix (ELog (heap gb ! length (heap ga))) = ''['' @ ?b @ ''] ''"
      using pb by (simp add: hg lga nth_append)
    moreover have "zservers gb = (zservers g)(?a \<mapsto> length (heap g), ?b \<mapsto> length (heap ga))"
      by (simp add: gb_def ga_def)
    ultimately show "\<exists>ra ga rb gb.
           New sa g = ([], Inr (ra, ga)) \<and> New sb ga = ([], Inr (rb, gb)) \<and> ra \<noteq> rb
           \<and> Server sa gb = ([], Inr ((ra, True), gb))
           \<and> Server sb gb = ([], Inr ((rb, True), gb))
           \<and> ra < length (heap gb) \<and> rb < length (heap gb)
           \<and> logPrefix (ELog (heap gb ! ra)) = ''['' @ ?a @ ''] ''
           \<and> logPrefix (ELog (heap gb ! rb)) = ''['' @ ?b @ ''] ''
           \<and> zservers gb = (zservers g)(?a \<mapsto> ra, ?b \<mapsto> rb)"
      by blast
  qed
qed

theorem registry_unique_names_witness:
  "\<exists>g1 g2 g3.
     New [] (init_pkg ''f00d'') = ([], Inr (0, g1))
     \<and> New [''admin'', ''more''] g1 = ([], Inr (1, g2))
     \<and> Server [] g2 = ([], Inr ((0, True), g2))
     \<and> Server [''admin''] g2 = ([], Inr ((1, True), g2))
     \<and> New [] g2 = ([LogLine Log LogFatal ''serverName: Z is has''], Inl ProcessExit)
     \<and> New [''Z''] g2 = ([LogLine Log LogFatal ''serverName: Z is has''], Inl ProcessExit)
     \<and> Server [''jobs''] g2 = ([LogLine Log LogWarn ''serverName: jobs is not''], Inr ((2, False), g3))
     \<and> zservers g3 ''jobs'' = Some 2 \<and> zservers g3 ''Z'' = Some 0 \<and> zservers g3 ''admin'' = Some 1
     \<and> logPrefix (ELog (heap g3 ! 2)) = ''[jobs] ''"
proof -
  let ?g = "init_pkg ''f00d''"
  have names: "serverName_arg [] = ''Z''" "serverName_arg [''admin'', ''more''] = ''admin''"
    "serverName_arg [''admin''] = ''admin''" "serverName_arg [''Z''] = ''Z''"
    "serverName_arg [''jobs''] = ''jobs''"
    using registry_unique_names [of "''admin''" "[''more'']" "[]" ?g 0 "[]" "[]"]
    by (simp_all add: serverName_arg_def)
  have free: "zservers ?g (serverName_arg []) = None
      \<and> zservers ?g (serverName_arg [''admin'', ''more'']) = None
      \<and> serverName_arg [] \<noteq> serverName_arg [''admin'', ''more'']"
    by (simp add: init_pkg_def names)
  from registry_unique_names [of "''admin''" "[''more'']" "[]" ?g 0 "[]" "[''admin'', ''more'']"] free
  obtain ra g1 rb g2 where
    a: "New [] ?g = ([], Inr (ra, g1))" and b: "New [''admin'', ''more''] g1 = ([], Inr (rb, g2))"
    and sa: "Server [] g2 = ([], Inr ((ra, True), g2))"
    and sb0: "Server [''admin'', ''more''] g2 = ([], Inr ((rb, True), g2))"
    and z2: "zservers g2 = (zservers ?g)(serverName_arg [] \<mapsto> ra, serverName_arg [''admin'', ''more''] \<mapsto> rb)"
    and lt: "ra < length (heap g2)" "rb < length (heap g2)" "ra \<noteq> rb"
    by blast
  have a0: "New [] ?g = ([], Inr (0, snd (projr (snd (New [] ?g)))))"
    by (simp add: New_def Let_def init_pkg_def)
  have ra: "ra = 0" and g1: "g1 = snd (projr (snd (New [] ?g)))"
    using a a0 by simp_all
  have l1: "length (heap g1) = 1"
    unfolding g1 by (simp add: New_def Let_def init_pkg_def)
  have f1: "zservers g1 ''admin'' = None"
    unfolding g1 by (simp add: New_def Let_def init_pkg_def names)
  have b0: "New [''admin'', ''more''] g1 = ([], Inr (1, snd (projr (snd (New [''admin'', ''more''] g1)))))"
    using f1 l1 by (simp add: New_def Let_def names)
  have rb: "rb = 1" and g2: "g2 = snd (projr (snd (New [''admin'', ''more''] g1)))"
    using b b0 by simp_all
  have l2: "length (heap g2) = 2"
    unfolding g2 using f1 l1 by (simp add: New_def Let_def names)
  have z: "zservers g2 ''Z'' = Some 0" "zservers g2 ''admin'' = Some 1" "zservers g2 ''jobs'' = None"
    unfolding z2 ra rb names by (simp_all add: init_pkg_def)
  from registry_unique_names [of "''admin''" "[''more'']" "[''admin'']" g2 1 "[]" "[]"] z names
  have sb: "Server [''admin''] g2 = ([], Inr ((1, True), g2))"
    by (simp add: Let_def)
  from registry_unique_names [of "''admin''" "[''more'']" "[]" g2 0 "[]" "[]"] z names
  have dup: "New [] g2 = ([LogLine Log LogFatal ''serverName: Z is has''], Inl ProcessExit)"
    by (simp add: Let_def)
  from registry_unique_names [of "''admin''" "[''more'']" "[''Z'']" g2 0 "[]" "[]"] z names
  have dup2: "New [''Z''] g2 = ([LogLine Log LogFatal ''serverName: Z is has''], Inl ProcessExit)"
    by (simp add: Let_def)
  define g3 where "g3 = g2\<lparr>zservers := (zservers g2)(''jobs'' \<mapsto> 2),
      heap := heap g2 @
        [\<lparr>ELog = \<lparr>logPrefix = ''[jobs] '', logLevel = LogInfo\<rparr>,
          readTimeout = 0, writeTimeout = 0, webModeName = ''prod'', webMode = 0,
          ShowFavicon = False, MaxMultipartMemory = 33554432, BindTag = ''json'',
          customMethodType = [],
          addrs = [\<lparr>Cert = [], Key = [], HTTPAddr = [], HTTPProcessing = Nil, Config = None,
                    addr = '':3788''\<rparr>],
          BindStructDelimiter = pkgBindStructDelimiter g2,
          BindStructSuffix = pkgBindStructSuffix g2\<rparr>]\<rparr>"
  from registry_unique_names [of "''admin''" "[''more'']" "[''jobs'']" g2 0 "[]" "[]"] z names l2
  have j: "Server [''jobs''] g2 =
      ([LogLine Log LogWarn ''serverName: jobs is not''], Inr ((2, False), g3))"
    by (simp add: Let_def g3_def)
  have z3: "zservers g3 ''jobs'' = Some 2" "zservers g3 ''Z'' = Some 0" "zservers g3 ''admin'' = Some 1"
    using z by (simp_all add: g3_def)
  have p3: "logPrefix (ELog (heap g3 ! 2)) = ''[jobs] ''"
    using l2 by (simp add: g3_def nth_append)
  show ?thesis
    using a b sa sb dup dup2 j z3 p3 unfolding ra rb
    by (intro exI [of _ g1] exI [of _ g2] exI [of _ g3]) simp
qed

section \<open>The operating mode: properties\<close>

text \<open>
  C5 (as the code has it). \<open>SetMode\<close> accepts four values: \<open>prod\<close>, \<open>dev\<close>, \<open>test\<close>
  and the empty string, which stands for \<open>prod\<close>. For each it sets the mode code, the
  mode name and the log level and reports nothing. For every other value it logs on the
  engine's logger and panics, and gives back no engine.
\<close>

theorem SetMode_closed_set:
  "(v \<in> {ProdMode, DebugMode, TestMode, []} \<longrightarrow>
      (\<exists>e'. SetMode v e = ([], Inr e')
         \<and> webModeName e' = (if v = [] then ProdMode else v)
         \<and> webMode e' = (if v = DebugMode then debugCode else if v = TestMode then testCode else prodCode)
         \<and> logLevel (ELog e') =
             (if v = DebugMode then LogDump else if v = TestMode then LogInfo else LogSuccess)))
   \<and> (v \<notin> {ProdMode, DebugMode, TestMode, []} \<longrightarrow>
        SetMode v e = ([LogLine (logPrefix (ELog e)) LogPanic (''web mode unknown: '' @ v)],
                       Inl (GoPanic (''web mode unknown: '' @ v))))"
  by (auto simp: SetMode_def ProdMode_def DebugMode_def TestMode_def)

theorem SetMode_closed_set_witness:
  "(\<exists>e'. SetMode ''dev'' (hd (heap (snd (projr (snd (New [] (init_pkg []))))))) = ([], Inr e')
      \<and> webModeName e' = ''dev'' \<and> webMode e' = 7 \<and> logLevel (ELog e') = LogDump)
   \<and> SetMode ''debug'' (hd (heap (snd (projr (snd (New [] (init_pkg []))))))) =
       ([LogLine ''[Z] '' LogPanic ''web mode unknown: debug''],
        Inl (GoPanic ''web mode unknown: debug''))"
proof -
  let ?e = "hd (heap (snd (projr (snd (New [] (init_pkg []))))))"
  have p: "logPrefix (ELog ?e) = ''[Z] ''"
    by (simp add: New_def serverName_arg_def init_pkg_def defaultServerName_def)
  have m: "''dev'' \<in> {ProdMode, DebugMode, TestMode, []}"
    "''debug'' \<notin> {ProdMode, DebugMode, TestMode, []}"
    by (simp_all add: ProdMode_def DebugMode_def TestMode_def)
  show ?thesis
    using SetMode_closed_set [of "''dev''" ?e] SetMode_closed_set [of "''debug''" ?e] m p
    by (simp add: DebugMode_def TestMode_def debugCode_def)
qed

text \<open>
  The empty string is none of \<open>prod\<close>, \<open>dev\<close>, \<open>test\<close>, and \<open>SetMode\<close> accepts it:
  the engine is in production mode afterwards, under the name \<open>prod\<close>.
\<close>

theorem SetMode_empty_counterexample:
  "[] \<notin> {ProdMode, DebugMode, TestMode}
   \<and> fst (SetMode [] (hd (heap (snd (projr (snd (New [] (init_pkg [])))))))) = []
   \<and> isl (snd (SetMode [] (hd (heap (snd (projr (snd (New [] (init_pkg [])))))))))  = False
   \<and> webModeName (projr (snd (SetMode [] (hd (heap (snd (projr (snd (New [] (init_pkg []))))))))))
       = ''prod''"
  by (simp add: SetMode_def ProdMode_def DebugMode_def TestMode_def)


section \<open>Run: one step, case by case\<close>

lemma emit_fields [simp]:
  "wg (emit t evs s) = wg s"
  "srvMap (emit t evs s) = srvMap s"
  "iskill (emit t evs s) = iskill s"
  "ctx (emit t evs s) = ctx s"
  "pc (emit t evs s) = pc s"
  "listeners (emit t evs s) = listeners s"
  "companions (emit t evs s) = companions s"
  "shutdowns (emit t evs s) = shutdowns s"
  "exited (emit t evs s) = exited s"
  "trace (emit t evs s) = trace s @ map (Pair t) evs"
  by (simp_all add: emit_def)

lemma next_state_cases [consumes 1, case_names launch resolve_exit resolve store begin_exit serve_begin
    serve_exit serve_return companion_start companion_return kill deadline restart range_begin visit
    range_end stop done_panic done_signal wait callback sleep]:
  assumes "next_state g a s = Some s'"
  obtains
    (launch) e cfg rest where "\<not> exited s" "a = LaunchNext" "pc s = MLaunch ((e, cfg) # rest)"
      "s' = s\<lparr>wg := wg s + 1,
              listeners := listeners s @ [\<lparr>l_engine = e, l_cfg = cfg, l_pc = LStart, l_srv = None\<rparr>],
              pc := MLaunch rest\<rparr>"
  | (resolve_exit) i listen x where "\<not> exited s" "a = ResolveAddr i listen"
      "i < length (listeners s)" "l_pc (listeners s ! i) = LStart"
      "snd (getPort listen (addr (l_cfg (listeners s ! i)))) = Inl x"
      "s' = emit (ListenerT i) (fst (getPort listen (addr (l_cfg (listeners s ! i)))))
              (s\<lparr>exited := True\<rparr>)"
  | (resolve) i listen ad where "\<not> exited s" "a = ResolveAddr i listen"
      "i < length (listeners s)" "l_pc (listeners s ! i) = LStart"
      "snd (getPort listen (addr (l_cfg (listeners s ! i)))) = Inr ad"
      "s' = emit (ListenerT i) (fst (getPort listen (addr (l_cfg (listeners s ! i)))))
              (s\<lparr>listeners := (listeners s)[i := (listeners s ! i)\<lparr>l_pc := LResolved ad\<rparr>]\<rparr>)"
  | (store) i ad where "\<not> exited s" "a = StoreServer i"
      "i < length (listeners s)" "l_pc (listeners s ! i) = LResolved ad"
      "s' = emit (ListenerT i) [Store ad (l_engine (listeners s ! i)) i]
              (s\<lparr>listeners := (listeners s)
                     [i := (listeners s ! i)\<lparr>l_pc := LStored ad,
                        l_srv := Some (new_server ad (l_engine (listeners s ! i))
                                         (heap g ! l_engine (listeners s ! i)))\<rparr>],
                  srvMap := AList.update ad \<lparr>engine = l_engine (listeners s ! i), srv = i\<rparr> (srvMap s)\<rparr>)"
  | (begin_exit) i listen ad sv x where "\<not> exited s" "a = BeginServe i listen"
      "i < length (listeners s)" "l_pc (listeners s ! i) = LStored ad"
      "l_srv (listeners s ! i) = Some sv"
      "snd (begin_serve listen i (l_cfg (listeners s ! i)) sv) = Inl x"
      "s' = emit (ListenerT i) (fst (begin_serve listen i (l_cfg (listeners s ! i)) sv))
              (s\<lparr>exited := True\<rparr>)"
  | (serve_begin) i listen ad sv sv' started where "\<not> exited s" "a = BeginServe i listen"
      "i < length (listeners s)" "l_pc (listeners s ! i) = LStored ad"
      "l_srv (listeners s ! i) = Some sv"
      "snd (begin_serve listen i (l_cfg (listeners s ! i)) sv) = Inr (sv', started)"
      "s' = emit (ListenerT i) (fst (begin_serve listen i (l_cfg (listeners s ! i)) sv))
              (s\<lparr>listeners := (listeners s)
                     [i := (listeners s ! i)\<lparr>l_pc := LServing ad, l_srv := Some sv'\<rparr>],
                  companions := companions s @
                    (case started of
                       None \<Rightarrow> []
                     | Some httpAddr \<Rightarrow>
                         [\<lparr>c_engine = l_engine (listeners s ! i), c_cfg = l_cfg (listeners s ! i),
                           c_addr = httpAddr, c_pc = CStart\<rparr>])\<rparr>)"
  | (serve_exit) i err ad x where "\<not> exited s" "a = ServeReturns i err"
      "i < length (listeners s)" "l_pc (listeners s ! i) = LServing ad"
      "snd (serve_returned (elog g (l_engine (listeners s ! i))) err) = Inl x"
      "s' = emit (ListenerT i) (fst (serve_returned (elog g (l_engine (listeners s ! i))) err))
              (s\<lparr>exited := True\<rparr>)"
  | (serve_return) i err ad where "\<not> exited s" "a = ServeReturns i err"
      "i < length (listeners s)" "l_pc (listeners s ! i) = LServing ad"
      "snd (serve_returned (elog g (l_engine (listeners s ! i))) err) = Inr ()"
      "s' = emit (ListenerT i) (fst (serve_returned (elog g (l_engine (listeners s ! i))) err))
              (s\<lparr>listeners := (listeners s)[i := (listeners s ! i)\<lparr>l_pc := LReturned ad\<rparr>]\<rparr>)"
  | (companion_start) k host where "\<not> exited s" "a = CompanionStarts k host"
      "k < length (companions s)" "c_pc (companions s ! k) = CStart"
      "s' = emit (CompanionT k)
              (companion_start (elog g (c_engine (companions s ! k))) (c_engine (companions s ! k))
                 (c_cfg (companions s ! k)) (c_addr (companions s ! k)) host)
              (s\<lparr>companions := (companions s)[k := (companions s ! k)\<lparr>c_pc := CServing\<rparr>]\<rparr>)"
  | (companion_return) k err where "\<not> exited s" "a = CompanionReturns k err"
      "k < length (companions s)" "c_pc (companions s ! k) = CServing"
      "s' = emit (CompanionT k) (fst (companion_returned (elog g (c_engine (companions s ! k))) err))
              (s\<lparr>companions := (companions s)[k := (companions s ! k)\<lparr>c_pc := CReturned\<rparr>]\<rparr>)"
  | (kill) b where "\<not> exited s" "a = KillObserved b" "pc s = MLaunch []"
      "s' = emit Main [IsKill b] (s\<lparr>iskill := b, pc := MDeadline\<rparr>)"
  | (deadline) "\<not> exited s" "a = SetDeadline" "pc s = MDeadline"
      "s' = emit Main [WithTimeout 20] (s\<lparr>ctx := Some 20, pc := MRestart\<rparr>)"
  | (restart) err where "\<not> exited s" "a = Restart err" "pc s = MRestart"
      "s' = emit Main (restart (iskill s) g err) (s\<lparr>pc := MRangeBegin\<rparr>)"
  | (range_begin) "\<not> exited s" "a = RangeBegin" "pc s = MRangeBegin"
      "s' = s\<lparr>pc := MRange (map fst (srvMap s)) []\<rparr>"
  | (visit) k start visited v where "\<not> exited s" "a = RangeVisit k" "pc s = MRange start visited"
      "k \<notin> set visited" "map_of (srvMap s) k = Some v"
      "s' = s\<lparr>shutdowns := shutdowns s @ [\<lparr>s_val = v, s_pc = SStart\<rparr>],
              pc := MRange start (k # visited)\<rparr>"
  | (range_end) start visited where "\<not> exited s" "a = RangeEnd" "pc s = MRange start visited"
      "set start \<subseteq> set visited" "s' = s\<lparr>pc := MWait\<rparr>"
  | (stop) j err where "\<not> exited s" "a = StopServer j err"
      "j < length (shutdowns s)" "s_pc (shutdowns s ! j) = SStart"
      "s' = emit (ShutdownT j)
              (shutdown_task (iskill s) (ctx s) (elog g (engine (s_val (shutdowns s ! j))))
                 (srv (s_val (shutdowns s ! j))) err)
              (s\<lparr>shutdowns := (shutdowns s)[j := (shutdowns s ! j)\<lparr>s_pc := SStopped\<rparr>]\<rparr>)"
  | (done_panic) j where "\<not> exited s" "a = SignalDone j"
      "j < length (shutdowns s)" "s_pc (shutdowns s ! j) = SStopped" "wg s \<le> 0"
      "s' = s\<lparr>exited := True\<rparr>"
  | (done_signal) j where "\<not> exited s" "a = SignalDone j"
      "j < length (shutdowns s)" "s_pc (shutdowns s ! j) = SStopped" "0 < wg s"
      "s' = emit (ShutdownT j) [Done]
              (s\<lparr>wg := wg s - 1,
                  shutdowns := (shutdowns s)[j := (shutdowns s ! j)\<lparr>s_pc := SDone\<rparr>]\<rparr>)"
  | (wait) "\<not> exited s" "a = WaitReturns" "pc s = MWait" "wg s = 0"
      "s' = emit Main [Wait] (s\<lparr>pc := MCallback\<rparr>)"
  | (callback) "\<not> exited s" "a = RunCallback" "pc s = MCallback"
      "s' = emit Main (if ShutdownDone g then [CallShutdownDone] else []) (s\<lparr>pc := MSleep\<rparr>)"
  | (sleep) "\<not> exited s" "a = DrainSleep" "pc s = MSleep"
      "s' = emit Main [Sleep 100, Cancel] (s\<lparr>pc := MReturned\<rparr>)"
proof (cases a)
  case LaunchNext
  then show ?thesis
    using assms launch
    by (auto simp: next_state_def split: if_splits main_pc.splits list.splits prod.splits)
next
  case (ResolveAddr i listen)
  then show ?thesis
    using assms resolve_exit resolve
    by (auto simp: next_state_def split: if_splits prod.splits sum.splits)
next
  case (StoreServer i)
  then show ?thesis
    using assms store
    by (auto simp: next_state_def Let_def split: if_splits listener_pc.splits)
next
  case (BeginServe i listen)
  then show ?thesis
    using assms begin_exit serve_begin
    by (auto simp: next_state_def Let_def
        split: if_splits listener_pc.splits option.splits prod.splits sum.splits)
next
  case (ServeReturns i err)
  then show ?thesis
    using assms serve_exit serve_return
    by (auto simp: next_state_def split: if_splits listener_pc.splits prod.splits sum.splits)
next
  case (CompanionStarts k host)
  then show ?thesis
    using assms companion_start
    by (auto simp: next_state_def Let_def split: if_splits)
next
  case (CompanionReturns k err)
  then show ?thesis
    using assms companion_return
    by (auto simp: next_state_def Let_def companion_returned_def split: if_splits)
next
  case (KillObserved b)
  then show ?thesis
    using assms kill
    by (auto simp: next_state_def split: if_splits main_pc.splits list.splits)
next
  case SetDeadline
  then show ?thesis
    using assms deadline
    by (auto simp: next_state_def split: if_splits main_pc.splits)
next
  case (Restart err)
  then show ?thesis
    using assms restart
    by (auto simp: next_state_def split: if_splits main_pc.splits)
next
  case RangeBegin
  then show ?thesis
    using assms range_begin
    by (auto simp: next_state_def split: if_splits main_pc.splits)
next
  case (RangeVisit k)
  then show ?thesis
    using assms visit
    by (auto simp: next_state_def split: if_splits main_pc.splits option.splits)
next
  case RangeEnd
  then show ?thesis
    using assms range_end
    by (auto simp: next_state_def split: if_splits main_pc.splits)
next
  case (StopServer j err)
  then show ?thesis
    using assms stop
    by (auto simp: next_state_def Let_def split: if_splits)
next
  case (SignalDone j)
  then show ?thesis
    using assms done_panic done_signal
    by (auto simp: next_state_def split: if_splits)
next
  case WaitReturns
  then show ?thesis
    using assms wait
    by (auto simp: next_state_def split: if_splits main_pc.splits)
next
  case RunCallback
  then show ?thesis
    using assms callback
    by (auto simp: next_state_def split: if_splits main_pc.splits)
next
  case DrainSleep
  then show ?thesis
    using assms sleep
    by (auto simp: next_state_def split: if_splits main_pc.splits)
qed

section \<open>Run: reachable states\<close>

lemma run_append:
  "run g (as @ bs) s = (case run g as s of None \<Rightarrow> None | Some s' \<Rightarrow> run g bs s')"
  by (induction as arbitrary: s) (auto split: option.splits)

lemma reachable_init: "reachable g order (init_run g order)"
  unfolding reachable_def by (rule exI [of _ "[]"]) simp

lemma reachable_step:
  assumes "reachable g order s" and "next_state g a s = Some s'"
  shows "reachable g order s'"
proof -
  from assms(1) obtain as where "run g as (init_run g order) = Some s"
    unfolding reachable_def by blast
  with assms(2) have "run g (as @ [a]) (init_run g order) = Some s'"
    by (simp add: run_append)
  then show ?thesis
    unfolding reachable_def by blast
qed

lemma reachable_run:
  assumes "reachable g order s" and "run g bs s = Some s'"
  shows "reachable g order s'"
proof -
  from assms(1) obtain as where "run g as (init_run g order) = Some s"
    unfolding reachable_def by blast
  with assms(2) have "run g (as @ bs) (init_run g order) = Some s'"
    by (simp add: run_append)
  then show ?thesis
    unfolding reachable_def by blast
qed

lemma reachable_induct [consumes 1, case_names init step]:
  assumes r: "reachable g order s"
    and i: "P (init_run g order)"
    and st: "\<And>s a s'. reachable g order s \<Longrightarrow> P s \<Longrightarrow> next_state g a s = Some s' \<Longrightarrow> P s'"
  shows "P s"
proof -
  from r obtain as where "run g as (init_run g order) = Some s"
    unfolding reachable_def by blast
  then show ?thesis
  proof (induction as arbitrary: s rule: rev_induct)
    case Nil
    then show ?case using i by simp
  next
    case (snoc a as)
    from snoc.prems obtain s0 where s0: "run g as (init_run g order) = Some s0"
      and n: "next_state g a s0 = Some s"
      by (auto simp: run_append split: option.splits)
    have "reachable g order s0"
      using s0 unfolding reachable_def by blast
    then show ?case
      using snoc.IH [OF s0] n by (rule st)
  qed
qed

section \<open>Run: the counter of the wait group\<close>

lemma done_count_append: "done_count (ts @ us) = done_count ts + done_count us"
  by (simp add: done_count_def)

lemma done_count_single: "done_count [t] = (if s_pc t = SDone then 1 else 0)"
  by (simp add: done_count_def)

lemma done_count_le: "done_count ts \<le> length ts"
  by (simp add: done_count_def)

lemma done_count_update:
  "j < length ts \<Longrightarrow> s_pc (ts ! j) \<noteq> SDone \<Longrightarrow>
   done_count (ts[j := t]) = (if s_pc t = SDone then Suc (done_count ts) else done_count ts)"
proof (induction ts arbitrary: j)
  case Nil
  then show ?case by simp
next
  case (Cons u us)
  show ?case
  proof (cases j)
    case 0
    then show ?thesis using Cons.prems by (simp add: done_count_def)
  next
    case (Suc k)
    then show ?thesis using Cons.prems Cons.IH [of k] by (simp add: done_count_def)
  qed
qed

lemma done_count_full:
  "done_count ts = length ts \<Longrightarrow> \<forall>t \<in> set ts. s_pc t = SDone"
proof (induction ts)
  case Nil
  then show ?case by simp
next
  case (Cons t ts)
  have le: "done_count ts \<le> length ts"
    by (rule done_count_le)
  have c: "done_count (t # ts) = (if s_pc t = SDone then 1 else 0) + done_count ts"
    by (simp add: done_count_def)
  from Cons.prems c le have "s_pc t = SDone" and "done_count ts = length ts"
    by (auto split: if_splits)
  then show ?case
    using Cons.IH by simp
qed

lemma wg_inv_step:
  assumes "wg_inv s" and "next_state g a s = Some s'"
  shows "wg_inv s'"
  using assms(2,1)
  by (cases rule: next_state_cases)
    (simp_all add: wg_inv_def done_count_update done_count_append done_count_single)

lemma wait_inv_step:
  assumes "wait_inv s" and "next_state g a s = Some s'"
  shows "wait_inv s'"
  using assms(2,1)
  by (cases rule: next_state_cases) (simp_all add: wait_inv_def past_wait_def)

section \<open>Run: the keys of the registry\<close>

lemma stored_set_snoc_None:
  "stored_addr l = None \<Longrightarrow> stored_set (ls @ [l]) = stored_set ls"
  by (auto simp: stored_set_def nth_append less_Suc_eq)

lemma stored_set_update_same:
  assumes "i < length ls" and "stored_addr l = stored_addr (ls ! i)"
  shows "stored_set (ls[i := l]) = stored_set ls"
proof -
  have "\<And>j. j < length ls \<Longrightarrow> stored_addr (ls[i := l] ! j) = stored_addr (ls ! j)"
    using assms by (simp add: nth_list_update)
  then show ?thesis
    by (simp add: stored_set_def cong: conj_cong)
qed

lemma stored_set_update_new:
  assumes "i < length ls" and "stored_addr (ls ! i) = None" and "stored_addr l = Some a"
  shows "stored_set (ls[i := l]) = insert a (stored_set ls)"
proof (rule set_eqI)
  fix x
  show "x \<in> stored_set (ls[i := l]) \<longleftrightarrow> x \<in> insert a (stored_set ls)"
  proof
    assume "x \<in> stored_set (ls[i := l])"
    then obtain j where j: "j < length ls" "stored_addr (ls[i := l] ! j) = Some x"
      by (auto simp: stored_set_def)
    show "x \<in> insert a (stored_set ls)"
    proof (cases "j = i")
      case True
      then show ?thesis using j assms by simp
    next
      case False
      then have "stored_addr (ls ! j) = Some x" using j by simp
      then show ?thesis using j(1) by (auto simp: stored_set_def)
    qed
  next
    assume "x \<in> insert a (stored_set ls)"
    then consider "x = a" | "x \<in> stored_set ls" by blast
    then show "x \<in> stored_set (ls[i := l])"
    proof cases
      case 1
      have "stored_addr (ls[i := l] ! i) = Some a" using assms by simp
      then show ?thesis using 1 assms(1) unfolding stored_set_def by auto
    next
      case 2
      then obtain j where j: "j < length ls" "stored_addr (ls ! j) = Some x"
        by (auto simp: stored_set_def)
      then have "j \<noteq> i" using assms(2) by auto
      then have "stored_addr (ls[i := l] ! j) = Some x" using j by simp
      then show ?thesis using j(1) unfolding stored_set_def by auto
    qed
  qed
qed

lemma keys_ok_snoc: "keys_ok mp ls \<Longrightarrow> stored_addr l = None \<Longrightarrow> keys_ok mp (ls @ [l])"
  by (simp add: keys_ok_def stored_set_snoc_None)

lemma keys_ok_same:
  "keys_ok mp ls \<Longrightarrow> i < length ls \<Longrightarrow> stored_addr l = stored_addr (ls ! i) \<Longrightarrow>
   keys_ok mp (ls[i := l])"
  by (simp add: keys_ok_def stored_set_update_same)

lemma keys_ok_store:
  "keys_ok mp ls \<Longrightarrow> i < length ls \<Longrightarrow> stored_addr (ls ! i) = None \<Longrightarrow> stored_addr l = Some a \<Longrightarrow>
   keys_ok (AList.update a v mp) (ls[i := l])"
  by (simp add: keys_ok_def stored_set_update_new distinct_update update_keys insert_absorb)

lemma keys_inv_step:
  assumes "keys_inv s" and "next_state g a s = Some s'"
  shows "keys_inv s'"
  using assms(2,1)
proof (cases rule: next_state_cases)
  case (store i ad)
  then show ?thesis
    using assms(1) by (simp add: keys_inv_def keys_ok_store stored_addr_def)
qed (simp_all add: keys_inv_def keys_ok_snoc keys_ok_same stored_addr_def)

section \<open>Run: the shutdown tasks\<close>

lemma range_ok_simps:
  "range_ok (MLaunch r) mp ts = (ts = [])"
  "range_ok MDeadline mp ts = (ts = [])"
  "range_ok MRestart mp ts = (ts = [])"
  "range_ok MRangeBegin mp ts = (ts = [])"
  "range_ok (MRange st vis) mp ts =
     (length ts \<le> length mp \<and> distinct vis \<and> set vis \<subseteq> set (map fst mp) \<and> length ts = length vis)"
  "range_ok MWait mp ts = (length ts \<le> length mp)"
  "range_ok MCallback mp ts = (length ts \<le> length mp)"
  "range_ok MSleep mp ts = (length ts \<le> length mp)"
  "range_ok MReturned mp ts = (length ts \<le> length mp)"
  by (auto simp: range_ok_def)

lemma length_update_ge: "length mp \<le> length (AList.update a v mp)"
  by (induction mp) auto

lemma range_ok_store: "range_ok p mp ts \<Longrightarrow> range_ok p (AList.update a v mp) ts"
  using length_update_ge [of mp a v]
  by (cases p) (auto simp: range_ok_simps update_keys)

lemma range_ok_update: "range_ok p mp ts \<Longrightarrow> range_ok p mp (ts[j := t])"
  by (cases p) (auto simp: range_ok_simps)

lemma distinct_subset_length:
  assumes "distinct xs" and "set xs \<subseteq> set ys"
  shows "length xs \<le> length ys"
proof -
  have "length xs = card (set xs)"
    using assms(1) by (simp add: distinct_card)
  also have "\<dots> \<le> card (set ys)"
    using assms(2) by (simp add: card_mono)
  also have "\<dots> \<le> length ys"
    by (rule card_length)
  finally show ?thesis .
qed

lemma range_ok_visit:
  assumes "range_ok (MRange st vis) mp ts" and "k \<notin> set vis" and "map_of mp k = Some v"
  shows "range_ok (MRange st (k # vis)) mp (ts @ [t])"
proof -
  have k: "k \<in> set (map fst mp)"
    using assms(3) by (auto dest: map_of_SomeD intro: rev_image_eqI)
  have d: "distinct (k # vis)" and sub: "set (k # vis) \<subseteq> set (map fst mp)"
    and len: "length ts = length vis"
    using assms(1,2) k by (auto simp: range_ok_simps)
  have "length (k # vis) \<le> length (map fst mp)"
    using d sub by (rule distinct_subset_length)
  then show ?thesis
    using d sub len by (simp add: range_ok_simps)
qed

lemma range_inv_step:
  assumes "range_inv s" and "next_state g a s = Some s'"
  shows "range_inv s'"
  using assms(2,1)
proof (cases rule: next_state_cases)
  case (visit k start visited v)
  then show ?thesis
    using assms(1) range_ok_visit [of start visited "srvMap s" "shutdowns s" k v]
    by (simp add: range_inv_def)
qed (simp_all add: range_inv_def range_ok_simps range_ok_store range_ok_update)

lemma map_update_same:
  "i < length xs \<Longrightarrow> f x = f (xs ! i) \<Longrightarrow> map f (xs[i := x]) = map f xs"
  by (simp add: map_update list_update_same_conv)

lemma target_of_simps:
  "target_of (l\<lparr>l_pc := p\<rparr>) = target_of l"
  "target_of (l\<lparr>l_pc := p, l_srv := sv\<rparr>) = target_of l"
  "target_of \<lparr>l_engine = e, l_cfg = cfg, l_pc = p, l_srv = sv\<rparr> = (e, cfg)"
  by (simp_all add: target_of_def)

lemma launch_inv_step:
  assumes "launch_inv g order s" and "next_state g a s = Some s'"
  shows "launch_inv g order s'"
  using assms(2,1)
  by (cases rule: next_state_cases)
    (simp_all add: launch_inv_def to_launch_def map_update_same target_of_simps)

section \<open>Run: the events of the tasks\<close>

lemma map_snd_Pair: "map snd (map (Pair t) evs) = evs" "map (snd \<circ> Pair t) evs = evs"
  by (induction evs) auto

lemma events_of_simps:
  "events_of t [] = []"
  "events_of t ((u, ev) # tr) = (if u = t then ev # events_of t tr else events_of t tr)"
  "events_of t (tr @ tr') = events_of t tr @ events_of t tr'"
  "events_of t (map (Pair u) evs) = (if u = t then evs else [])"
  by (induction evs) (auto simp: events_of_def)

lemma getPort_events:
  "filter is_barrier (fst (getPort l a)) = []"
  "filter is_spawn (fst (getPort l a)) = []"
  "filter is_deadline (fst (getPort l a)) = []"
  "filter other_deadline (fst (getPort l a)) = []"
  "filter is_reg_or_serve (fst (getPort l a)) = []"
  by (simp_all add: getPort_def Let_def is_barrier_def is_spawn_def is_deadline_def
      other_deadline_def is_reg_or_serve_def split: sum.splits)

lemma begin_serve_events:
  "filter is_barrier (fst (begin_serve l i cfg sv)) = []"
  "filter is_spawn (fst (begin_serve l i cfg sv)) = []"
  "filter is_deadline (fst (begin_serve l i cfg sv)) = []"
  "filter other_deadline (fst (begin_serve l i cfg sv)) = []"
  using getPort_events [of l "HTTPAddr cfg"]
  by (auto simp: begin_serve_def Let_def is_barrier_def is_spawn_def is_deadline_def
      other_deadline_def split: prod.splits sum.splits)

lemma begin_serve_calls:
  "filter is_reg_or_serve (fst (begin_serve l i cfg sv)) =
     (if isl (snd (begin_serve l i cfg sv)) then [] else [serve_call i cfg])"
  using getPort_events(5) [of l "HTTPAddr cfg"]
  by (auto simp: begin_serve_def Let_def is_reg_or_serve_def serve_call_def
      split: prod.splits sum.splits)

lemma serve_returned_events:
  "filter is_barrier (fst (serve_returned lg err)) = []"
  "filter is_spawn (fst (serve_returned lg err)) = []"
  "filter is_deadline (fst (serve_returned lg err)) = []"
  "filter other_deadline (fst (serve_returned lg err)) = []"
  "filter is_reg_or_serve (fst (serve_returned lg err)) = []"
  by (simp_all add: serve_returned_def is_barrier_def is_spawn_def is_deadline_def
      other_deadline_def is_reg_or_serve_def)

lemma companion_events:
  "filter is_barrier (companion_start lg e cfg ha host) = []"
  "filter is_spawn (companion_start lg e cfg ha host) = []"
  "filter is_deadline (companion_start lg e cfg ha host) = []"
  "filter other_deadline (companion_start lg e cfg ha host) = []"
  "filter is_barrier (fst (companion_returned lg err)) = []"
  "filter is_spawn (fst (companion_returned lg err)) = []"
  "filter is_deadline (fst (companion_returned lg err)) = []"
  "filter other_deadline (fst (companion_returned lg err)) = []"
  by (simp_all add: companion_start_def companion_returned_def is_barrier_def is_spawn_def
      is_deadline_def other_deadline_def)

lemma restart_events:
  "filter is_barrier (restart ik g err) = []"
  "filter is_deadline (restart ik g err) = []"
  "filter other_deadline (restart ik g err) = []"
  "filter is_spawn (restart ik g err) =
     (if \<not> ik \<and> \<not> CloseHotRestart g then [RunNewProcess (fileMd5 g)] else [])"
  by (simp_all add: restart_def runNewProcess_def is_barrier_def is_spawn_def is_deadline_def
      other_deadline_def)

lemma shutdown_task_events:
  "filter is_barrier (shutdown_task ik c lg sv err) = []"
  "filter is_spawn (shutdown_task ik c lg sv err) = []"
  "filter is_deadline (shutdown_task ik c lg sv err) = []"
  "filter other_deadline (shutdown_task ik (Some 20) lg sv err) = []"
  by (simp_all add: shutdown_task_def is_barrier_def is_spawn_def is_deadline_def
      other_deadline_def)

lemmas task_events = map_snd_Pair getPort_events begin_serve_events serve_returned_events
  companion_events restart_events shutdown_task_events

lemma main_tail_simps:
  "main_tail g (MLaunch r) = []"
  "main_tail g MDeadline = []"
  "main_tail g MRestart = []"
  "main_tail g MRangeBegin = []"
  "main_tail g (MRange st vis) = []"
  "main_tail g MWait = []"
  "main_tail g MCallback = [Wait]"
  "main_tail g MSleep = Wait # (if ShutdownDone g then [CallShutdownDone] else [])"
  "main_tail g MReturned = Wait # (if ShutdownDone g then [CallShutdownDone] else []) @ [Sleep 100]"
  by (simp_all add: main_tail_def)

lemma main_tail_before: "\<not> past_wait s \<Longrightarrow> main_tail g (pc s) = []"
  by (cases "pc s") (simp_all add: past_wait_def main_tail_simps)

lemma barrier_inv_step:
  assumes "barrier_inv g s" and "wait_inv s" and "next_state g a s = Some s'"
  shows "barrier_inv g s'"
  using assms(3,1)
proof (cases rule: next_state_cases)
  case (done_signal j)
  have "\<not> past_wait s"
    using assms(2) done_signal(5) by (auto simp: wait_inv_def)
  then have "main_tail g (pc s) = []"
    by (rule main_tail_before)
  then show ?thesis
    using done_signal assms(1)
    by (simp add: barrier_inv_def done_count_update is_barrier_def replicate_append_same)
qed (simp_all add: barrier_inv_def task_events main_tail_simps done_count_update
      done_count_append done_count_single is_barrier_def)

lemma after_restart_simps:
  "after_restart (MLaunch r) = False"
  "after_restart MDeadline = False"
  "after_restart MRestart = False"
  "after_restart MRangeBegin = True"
  "after_restart (MRange st vis) = True"
  "after_restart MWait = True"
  "after_restart MCallback = True"
  "after_restart MSleep = True"
  "after_restart MReturned = True"
  by (simp_all add: after_restart_def)

lemma spawn_inv_step:
  assumes "spawn_inv g s" and "next_state g a s = Some s'"
  shows "spawn_inv g s'"
  using assms(2,1)
  by (cases rule: next_state_cases)
    (simp_all add: spawn_inv_def task_events after_restart_simps is_spawn_def)

lemma after_deadline_simps:
  "after_deadline (MLaunch r) = False"
  "after_deadline MDeadline = False"
  "after_deadline MRestart = True"
  "after_deadline MRangeBegin = True"
  "after_deadline (MRange st vis) = True"
  "after_deadline MWait = True"
  "after_deadline MCallback = True"
  "after_deadline MSleep = True"
  "after_deadline MReturned = True"
  by (simp_all add: after_deadline_def)

lemma range_ok_tasks: "range_ok p mp ts \<Longrightarrow> ts \<noteq> [] \<Longrightarrow> after_deadline p"
  by (cases p) (simp_all add: range_ok_simps after_deadline_simps)

lemma deadline_inv_step:
  assumes "deadline_inv s" and "range_inv s" and "next_state g a s = Some s'"
  shows "deadline_inv s'"
  using assms(3,1)
proof (cases rule: next_state_cases)
  case (stop j err)
  have "shutdowns s \<noteq> []"
    using stop(3) by auto
  then have "after_deadline (pc s)"
    using assms(2) by (auto simp: range_inv_def dest: range_ok_tasks)
  then have "ctx s = Some 20"
    using assms(1) by (simp add: deadline_inv_def)
  then show ?thesis
    using stop assms(1) by (simp add: deadline_inv_def task_events)
qed (simp_all add: deadline_inv_def task_events after_deadline_simps is_deadline_def
      other_deadline_def)

lemma order_inv_step:
  assumes "order_inv s" and "next_state g a s = Some s'"
  shows "order_inv s'"
  unfolding order_inv_def
proof
  fix i
  have o: "filter is_reg_or_serve (events_of (ListenerT i) (trace s)) =
      (if i < length (listeners s) then expected_calls i (listeners s ! i) else [])"
    using assms(1) by (simp add: order_inv_def)
  from assms(2) o
  show "filter is_reg_or_serve (events_of (ListenerT i) (trace s')) =
      (if i < length (listeners s') then expected_calls i (listeners s' ! i) else [])"
    by (cases rule: next_state_cases)
      (auto simp: events_of_simps nth_list_update nth_append expected_calls_def task_events
        begin_serve_calls is_reg_or_serve_def)
qed

section \<open>Run: counting the tasks\<close>

lemma stored_set_conv: "stored_set ls = {a. Some a \<in> set (map stored_addr ls)}"
proof (rule set_eqI)
  fix a
  show "a \<in> stored_set ls \<longleftrightarrow> a \<in> {a. Some a \<in> set (map stored_addr ls)}"
  proof
    assume "a \<in> stored_set ls"
    then obtain i where i: "i < length ls" "stored_addr (ls ! i) = Some a"
      by (auto simp: stored_set_def)
    have "map stored_addr ls ! i \<in> set (map stored_addr ls)"
      using i(1) by (intro nth_mem) simp
    then show "a \<in> {a. Some a \<in> set (map stored_addr ls)}"
      using i by simp
  next
    assume "a \<in> {a. Some a \<in> set (map stored_addr ls)}"
    then obtain l where l: "l \<in> set ls" "stored_addr l = Some a"
      by auto
    from l(1) obtain i where "i < length ls" "ls ! i = l"
      by (auto simp: in_set_conv_nth)
    then show "a \<in> stored_set ls"
      using l(2) by (auto simp: stored_set_def)
  qed
qed

lemma card_Some_le:
  fixes xs :: "'a option list"
  shows "card {a. Some a \<in> set xs} \<le> length xs
    \<and> (card {a. Some a \<in> set xs} = length xs \<longrightarrow> distinct xs \<and> None \<notin> set xs)"
proof (induction xs)
  case Nil
  then show ?case by simp
next
  case (Cons x xs)
  let ?S = "{a. Some a \<in> set xs}"
  have fin: "finite ?S"
  proof (rule finite_imageD)
    show "finite (Some ` ?S)"
      by (rule finite_subset [of _ "set xs"]) auto
    show "inj_on Some ?S"
      by simp
  qed
  show ?case
  proof (cases x)
    case None
    then have "{a. Some a \<in> set (x # xs)} = ?S"
      by auto
    then show ?thesis
      using Cons.IH by simp
  next
    case (Some a)
    then have e: "{b. Some b \<in> set (x # xs)} = insert a ?S"
      by auto
    show ?thesis
    proof (cases "a \<in> ?S")
      case True
      then have "card (insert a ?S) = card ?S"
        by (simp add: insert_absorb)
      then show ?thesis
        using Cons.IH e by simp
    next
      case False
      then have "card (insert a ?S) = Suc (card ?S)"
        using fin by simp
      then show ?thesis
        using Cons.IH e False Some by simp
    qed
  qed
qed

lemma stored_set_card:
  "card (stored_set ls) \<le> length ls"
  "card (stored_set ls) = length ls \<Longrightarrow>
     distinct (map stored_addr ls) \<and> None \<notin> set (map stored_addr ls)"
  using card_Some_le [of "map stored_addr ls"] by (simp_all add: stored_set_conv)

lemma range_ok_length: "range_ok p mp ts \<Longrightarrow> length ts \<le> length mp"
  by (simp add: range_ok_def)

lemma tasks_bounded:
  assumes "keys_inv s" and "range_inv s"
  shows "done_count (shutdowns s) \<le> length (shutdowns s)"
    and "length (shutdowns s) \<le> length (srvMap s)"
    and "length (srvMap s) = card (stored_set (listeners s))"
    and "length (srvMap s) \<le> length (listeners s)"
proof -
  show "done_count (shutdowns s) \<le> length (shutdowns s)"
    by (rule done_count_le)
  show "length (shutdowns s) \<le> length (srvMap s)"
    using assms(2) by (simp add: range_inv_def range_ok_length)
  have k: "distinct (map fst (srvMap s))" "set (map fst (srvMap s)) = stored_set (listeners s)"
    using assms(1) by (simp_all add: keys_inv_def keys_ok_def)
  have "card (set (map fst (srvMap s))) = length (map fst (srvMap s))"
    using k(1) by (rule distinct_card)
  then show c: "length (srvMap s) = card (stored_set (listeners s))"
    unfolding k(2) by simp
  show "length (srvMap s) \<le> length (listeners s)"
    unfolding c by (rule stored_set_card(1))
qed

lemma barrier_release:
  assumes "wg_inv s" and "keys_inv s" and "range_inv s" and "wg s = 0"
  shows "done_count (shutdowns s) = length (shutdowns s)"
    and "length (shutdowns s) = length (listeners s)"
    and "length (srvMap s) = length (listeners s)"
    and "distinct (map stored_addr (listeners s))"
    and "None \<notin> set (map stored_addr (listeners s))"
proof -
  note b = tasks_bounded [OF assms(2,3)]
  have d: "done_count (shutdowns s) = length (listeners s)"
    using assms(1,4) by (simp add: wg_inv_def)
  show "done_count (shutdowns s) = length (shutdowns s)"
    using d b by linarith
  show "length (shutdowns s) = length (listeners s)"
    using d b by linarith
  show m: "length (srvMap s) = length (listeners s)"
    using d b by linarith
  have "card (stored_set (listeners s)) = length (listeners s)"
    using m b(3) by simp
  then show "distinct (map stored_addr (listeners s))"
    and "None \<notin> set (map stored_addr (listeners s))"
    using stored_set_card(2) [of "listeners s"] by blast+
qed

lemma wg_nonneg:
  assumes "wg_inv s" and "keys_inv s" and "range_inv s"
  shows "0 \<le> wg s"
  using tasks_bounded [OF assms(2,3)] assms(1) by (simp add: wg_inv_def)

lemma stored_resolved: "stored_addr l = Some a \<Longrightarrow> resolved_addr l = Some a"
  by (auto simp: stored_addr_def resolved_addr_def split: listener_pc.splits)

lemma duplicate_blocks:
  assumes "wg_inv s" and "keys_inv s" and "range_inv s" and "duplicate_addr (listeners s)"
  shows "0 < wg s"
proof (rule ccontr)
  assume "\<not> 0 < wg s"
  then have z: "wg s = 0"
    using wg_nonneg [OF assms(1-3)] by simp
  note r = barrier_release [OF assms(1-3) z]
  from assms(4) obtain i j where ij: "i < length (listeners s)" "j < length (listeners s)" "i \<noteq> j"
    and res: "resolved_addr (listeners s ! i) \<noteq> None"
      "resolved_addr (listeners s ! i) = resolved_addr (listeners s ! j)"
    unfolding duplicate_addr_def by blast
  have mem: "\<And>k. k < length (listeners s) \<Longrightarrow> stored_addr (listeners s ! k) \<noteq> None"
  proof -
    fix k
    assume k: "k < length (listeners s)"
    have "map stored_addr (listeners s) ! k \<in> set (map stored_addr (listeners s))"
      using k by (intro nth_mem) simp
    then have in_set: "stored_addr (listeners s ! k) \<in> set (map stored_addr (listeners s))"
      using k by simp
    show "stored_addr (listeners s ! k) \<noteq> None"
    proof
      assume "stored_addr (listeners s ! k) = None"
      then have "None \<in> set (map stored_addr (listeners s))"
        using in_set by simp
      then show False
        using r(5) by (rule notE [rotated])
    qed
  qed
  have "stored_addr (listeners s ! i) \<noteq> None" "stored_addr (listeners s ! j) \<noteq> None"
    using mem ij by blast+
  then obtain x y where xy: "stored_addr (listeners s ! i) = Some x"
      "stored_addr (listeners s ! j) = Some y"
    by blast
  then have "x = y"
    using res(2) by (simp add: stored_resolved)
  then have same: "stored_addr (listeners s ! i) = stored_addr (listeners s ! j)"
    using xy by simp
  let ?xs = "map stored_addr (listeners s)"
  from r(4) have "\<forall>a < length ?xs. \<forall>b < length ?xs. a \<noteq> b \<longrightarrow> ?xs ! a \<noteq> ?xs ! b"
    by (simp only: distinct_conv_nth)
  then have "?xs ! i \<noteq> ?xs ! j"
    using ij by simp
  then show False
    using same ij by simp
qed

lemma resolved_persist:
  assumes "next_state g a s = Some s'" and "i < length (listeners s)"
    and "resolved_addr (listeners s ! i) = Some x"
  shows "i < length (listeners s') \<and> resolved_addr (listeners s' ! i) = Some x"
  using assms
  by (cases rule: next_state_cases)
    (auto simp: nth_list_update nth_append resolved_addr_def split: listener_pc.splits)

lemma duplicate_step:
  assumes "duplicate_addr (listeners s)" and "next_state g a s = Some s'"
  shows "duplicate_addr (listeners s')"
proof -
  from assms(1) obtain i j where ij: "i < length (listeners s)" "j < length (listeners s)" "i \<noteq> j"
    and r0: "resolved_addr (listeners s ! i) \<noteq> None"
      "resolved_addr (listeners s ! i) = resolved_addr (listeners s ! j)"
    unfolding duplicate_addr_def by blast
  from r0(1) obtain x where x: "resolved_addr (listeners s ! i) = Some x"
    by blast
  have res: "resolved_addr (listeners s ! i) = Some x" "resolved_addr (listeners s ! j) = Some x"
    using x r0(2) by simp_all
  have "i < length (listeners s') \<and> resolved_addr (listeners s' ! i) = Some x"
    using assms(2) ij(1) res(1) by (rule resolved_persist)
  moreover have "j < length (listeners s') \<and> resolved_addr (listeners s' ! j) = Some x"
    using assms(2) ij(2) res(2) by (rule resolved_persist)
  ultimately show ?thesis
    unfolding duplicate_addr_def using ij(3) by (intro exI [of _ i] conjI exI [of _ j]) simp_all
qed

lemma duplicate_run:
  "duplicate_addr (listeners s) \<Longrightarrow> run g as s = Some s' \<Longrightarrow> duplicate_addr (listeners s')"
proof (induction as arbitrary: s)
  case Nil
  then show ?case by simp
next
  case (Cons a as)
  from Cons.prems(2) obtain s1 where s1: "next_state g a s = Some s1" "run g as s1 = Some s'"
    by (auto split: option.splits)
  have "duplicate_addr (listeners s1)"
    using Cons.prems(1) s1(1) by (rule duplicate_step)
  then show ?case
    using s1(2) by (rule Cons.IH)
qed

section \<open>Run: what holds in every reachable state\<close>

lemma reachable_invs:
  assumes "reachable g order s"
  shows "wg_inv s \<and> keys_inv s \<and> range_inv s \<and> wait_inv s \<and> launch_inv g order s
    \<and> barrier_inv g s \<and> spawn_inv g s \<and> deadline_inv s \<and> order_inv s"
  using assms
proof (induction rule: reachable_induct)
  case init
  show ?case
    by (simp add: init_run_def wg_inv_def keys_inv_def keys_ok_def stored_set_def range_inv_def
        range_ok_simps wait_inv_def past_wait_def launch_inv_def to_launch_def barrier_inv_def
        main_tail_simps spawn_inv_def after_restart_simps deadline_inv_def after_deadline_simps
        order_inv_def events_of_def done_count_def)
next
  case (step s a s')
  note n = step.hyps(2)
  from step.IH have w: "wg_inv s" and k: "keys_inv s" and r: "range_inv s" and wt: "wait_inv s"
    and l: "launch_inv g order s" and b: "barrier_inv g s" and sp: "spawn_inv g s"
    and d: "deadline_inv s" and o: "order_inv s"
    by simp_all
  show ?case
    by (intro conjI wg_inv_step [OF w n] keys_inv_step [OF k n] range_inv_step [OF r n]
        wait_inv_step [OF wt n] launch_inv_step [OF l n] barrier_inv_step [OF b wt n]
        spawn_inv_step [OF sp n] deadline_inv_step [OF d r n] order_inv_step [OF o n])
qed


section \<open>The three runs, evaluated\<close>

lemmas eval_defs = example_pkg_def twice_pkg_def tls_pkg_def tls_target_def example_schedule_def
  twice_schedule_def tls_schedule_def New_def init_pkg_def serverName_arg_def
  defaultServerName_def AddAddr_def defaultAddr_def init_run_def bind_targets_def next_state_def
  emit_def getPort_def Let_def begin_serve_def isTls_def new_server_def restart_def
  runNewProcess_def shutdown_task_def serve_returned_def companion_start_def
  companion_handler_def companion_returned_def elog_def err_text_def

lemma reachable_by_run: "run g as (init_run g order) = Some s \<Longrightarrow> reachable g order s"
  unfolding reachable_def by blast

lemma example_serving:
  "\<exists>s. run example_pkg (take 4 example_schedule) (init_run example_pkg [''Z'']) = Some s
     \<and> \<not> exited s \<and> length (listeners s) = 1 \<and> l_pc (listeners s ! 0) = LServing '':3788''
     \<and> l_engine (listeners s ! 0) = 0 \<and> l_cfg (listeners s ! 0) = defaultAddr
     \<and> srvMap s = [('':3788'', \<lparr>engine = 0, srv = 0\<rparr>)]
     \<and> trace s = [(ListenerT 0, Store '':3788'' 0 0), (ListenerT 0, AfterFunc 100),
                   (ListenerT 0, ListenAndServe 0)]"
  by (simp add: eval_defs)

lemma example_stopping:
  "\<exists>s. run example_pkg (take 10 example_schedule) (init_run example_pkg [''Z'']) = Some s
     \<and> \<not> exited s \<and> pc s = MWait \<and> iskill s = False \<and> ctx s = Some 20 \<and> wg s = 1
     \<and> shutdowns s = [\<lparr>s_val = \<lparr>engine = 0, srv = 0\<rparr>, s_pc = SStart\<rparr>]"
  by (simp add: eval_defs)

lemma example_final:
  "\<exists>s. run example_pkg example_schedule (init_run example_pkg [''Z'']) = Some s
     \<and> \<not> exited s \<and> pc s = MReturned \<and> iskill s = False \<and> wg s = 0
     \<and> length (listeners s) = 1 \<and> l_pc (listeners s ! 0) = LReturned '':3788''
     \<and> shutdowns s = [\<lparr>s_val = \<lparr>engine = 0, srv = 0\<rparr>, s_pc = SDone\<rparr>]
     \<and> trace s =
         [(ListenerT 0, Store '':3788'' 0 0), (ListenerT 0, AfterFunc 100),
          (ListenerT 0, ListenAndServe 0), (Main, IsKill False), (Main, WithTimeout 20),
          (Main, RunNewProcess ''f00d''), (ShutdownT 0, Shutdown 0 (Some 20)),
          (ShutdownT 0, Done), (Main, Wait), (Main, CallShutdownDone), (Main, Sleep 100),
          (Main, Cancel)]"
  by (simp add: eval_defs)

lemma twice_final:
  "\<exists>s. run twice_pkg twice_schedule (init_run twice_pkg [''Z'']) = Some s
     \<and> \<not> exited s \<and> pc s = MWait \<and> iskill s = True \<and> wg s = 1
     \<and> length (listeners s) = 2 \<and> l_pc (listeners s ! 0) = LServing '':3788''
     \<and> l_pc (listeners s ! 1) = LReturned '':3788''
     \<and> srvMap s = [('':3788'', \<lparr>engine = 0, srv = 1\<rparr>)]
     \<and> shutdowns s = [\<lparr>s_val = \<lparr>engine = 0, srv = 1\<rparr>, s_pc = SDone\<rparr>]
     \<and> map snd (trace s) =
         [Store '':3788'' 0 0, Store '':3788'' 0 1, AfterFunc 100, ListenAndServe 0,
          AfterFunc 100, ListenAndServe 1, IsKill True, WithTimeout 20,
          LogLine ''[Z] '' LogInfo ''Shutdown server ...'', Shutdown 1 (Some 20),
          LogLine ''[Z] '' LogError ''Timeout forced close'', Close 1, Done]"
  by (simp add: eval_defs)

lemma tls_stored:
  "\<exists>s. run tls_pkg (take 3 tls_schedule) (init_run tls_pkg [''Z'']) = Some s
     \<and> \<not> exited s \<and> length (listeners s) = 1 \<and> l_pc (listeners s ! 0) = LStored '':443''
     \<and> l_cfg (listeners s ! 0) = tls_target \<and> l_engine (listeners s ! 0) = 0
     \<and> l_srv (listeners s ! 0) = Some \<lparr>Addr = '':443'', Handler = EngineHandler 0,
           ReadTimeout = 0, WriteTimeout = 0, TLSConfig = None\<rparr>
     \<and> companions s = []"
  by (simp add: eval_defs)

lemma tls_serving:
  "\<exists>s. run tls_pkg tls_schedule (init_run tls_pkg [''Z'']) = Some s
     \<and> \<not> exited s \<and> length (listeners s) = 1 \<and> l_pc (listeners s ! 0) = LServing '':443''
     \<and> companions s = [\<lparr>c_engine = 0, c_cfg = tls_target, c_addr = '':80'', c_pc = CServing\<rparr>]
     \<and> map snd (trace s) =
         [Store '':443'' 0 0, AfterFunc 100, ListenAndServeTLS 0 ''cert.pem'' ''key.pem'',
          LogLine ''[Z] '' LogSuccess ''Listen: http://localhost:80'',
          HttpListenAndServe '':80'' (tlsRedirectHandler ''example.com'')]"
  by (simp add: eval_defs)

lemma exited_stops: "exited s \<Longrightarrow> next_state g act s = None"
  by (simp add: next_state_def)

section \<open>The return of a serve call: properties\<close>

text \<open>
  C1 (as the code has it). When the serve call of a listener task returns the sentinel
  \<open>http.ErrServerClosed\<close>, the task ends and writes nothing; when it returns \<open>nil\<close>,
  the task writes \<open>nil\<close> at info level and ends; when it returns any other error, the
  task writes a fatal line on the engine's logger and the process ends, after which no
  task takes a step.
\<close>

theorem serve_return_outcomes:
  "serve_returned lg (Some ErrServerClosed) = ([], Inr ())
   \<and> serve_returned lg None = ([LogLine lg LogInfo ''<nil>''], Inr ())
   \<and> serve_returned lg (Some (OtherError msg)) =
        ([LogLine lg LogFatal (''Listen: '' @ msg @ newline)], Inl ProcessExit)
   \<and> (\<not> exited s \<and> i < length (listeners s) \<and> l_pc (listeners s ! i) = LServing a \<longrightarrow>
        next_state g (ServeReturns i (Some ErrServerClosed)) s =
          Some (s\<lparr>listeners := (listeners s)[i := (listeners s ! i)\<lparr>l_pc := LReturned a\<rparr>]\<rparr>)
        \<and> next_state g (ServeReturns i None) s =
          Some (s\<lparr>listeners := (listeners s)[i := (listeners s ! i)\<lparr>l_pc := LReturned a\<rparr>],
                  trace := trace s @
                    [(ListenerT i, LogLine (elog g (l_engine (listeners s ! i))) LogInfo ''<nil>'')]\<rparr>)
        \<and> next_state g (ServeReturns i (Some (OtherError msg))) s =
          Some (s\<lparr>exited := True,
                  trace := trace s @
                    [(ListenerT i, LogLine (elog g (l_engine (listeners s ! i))) LogFatal
                        (''Listen: '' @ msg @ newline))]\<rparr>))
   \<and> (exited s \<longrightarrow> next_state g act s = None)"
  by (simp add: serve_returned_def err_text_def next_state_def emit_def)

theorem serve_return_outcomes_witness:
  "\<exists>s s1 s2. run example_pkg (take 4 example_schedule) (init_run example_pkg [''Z'']) = Some s
     \<and> next_state example_pkg (ServeReturns 0 (Some ErrServerClosed)) s = Some s1
     \<and> trace s1 = trace s \<and> \<not> exited s1 \<and> l_pc (listeners s1 ! 0) = LReturned '':3788''
     \<and> next_state example_pkg (ServeReturns 0 (Some (OtherError ''bind: address already in use''))) s
         = Some s2
     \<and> exited s2
     \<and> trace s2 = trace s @
          [(ListenerT 0, LogLine ''[Z] '' LogFatal (''Listen: bind: address already in use'' @ newline))]
     \<and> next_state example_pkg (ServeReturns 0 None) s2 = None"
proof -
  from example_serving obtain s where
    r: "run example_pkg (take 4 example_schedule) (init_run example_pkg [''Z'']) = Some s"
    and h: "\<not> exited s" "length (listeners s) = 1" "l_pc (listeners s ! 0) = LServing '':3788''"
    and e: "l_engine (listeners s ! 0) = 0"
    by blast
  have lg: "elog example_pkg 0 = ''[Z] ''"
    by (simp add: eval_defs)
  let ?s1 = "s\<lparr>listeners := (listeners s)[0 := (listeners s ! 0)\<lparr>l_pc := LReturned '':3788''\<rparr>]\<rparr>"
  let ?s2 = "s\<lparr>exited := True, trace := trace s @
      [(ListenerT 0, LogLine ''[Z] '' LogFatal (''Listen: bind: address already in use'' @ newline))]\<rparr>"
  have t: "next_state example_pkg (ServeReturns 0 (Some ErrServerClosed)) s = Some ?s1"
    "next_state example_pkg (ServeReturns 0 (Some (OtherError ''bind: address already in use''))) s
       = Some ?s2"
    using serve_return_outcomes
      [of "''[Z] ''" "''bind: address already in use''" s 0 "'':3788''" example_pkg "ServeReturns 0 None"]
      h e lg
    by simp_all
  have x: "next_state example_pkg (ServeReturns 0 None) ?s2 = None"
    using serve_return_outcomes
      [of "''[Z] ''" "''bind: address already in use''" ?s2 0 "'':3788''" example_pkg "ServeReturns 0 None"]
    by simp
  show ?thesis
    using r t x h
    by (intro exI [of _ s] exI [of _ ?s1] exI [of _ ?s2]) simp
qed

text \<open>
  On the sentinel the task writes no line at all: the branch that writes at info level
  is guarded by the same comparison with the sentinel as the fatal one.
\<close>

theorem serve_returned_sentinel_counterexample:
  "fst (serve_returned ''[Z] '' (Some ErrServerClosed)) = []
   \<and> snd (serve_returned ''[Z] '' (Some ErrServerClosed)) = Inr ()"
  by (simp add: serve_returned_def)

section \<open>The successor process: properties\<close>

lemma step_restart:
  "\<not> exited s \<Longrightarrow> pc s = MRestart \<Longrightarrow>
   next_state g (Restart err) s = Some (emit Main (restart (iskill s) g err) (s\<lparr>pc := MRangeBegin\<rparr>))"
  by (simp add: next_state_def)

lemma step_kill:
  "\<not> exited s \<Longrightarrow> pc s = MLaunch [] \<Longrightarrow>
   next_state g (KillObserved b) s = Some (emit Main [IsKill b] (s\<lparr>iskill := b, pc := MDeadline\<rparr>))"
  by (simp add: next_state_def)

text \<open>
  C2. \<open>runNewProcess\<close> calls \<open>zshell.RunNewProcess\<close> once, with the fingerprint, and
  \<open>Run\<close> calls \<open>runNewProcess\<close> when \<open>isKill\<close> has answered no and
  \<open>CloseHotRestart\<close> is not set, and only then. So in every state a run can reach, the
  calls made so far are: none before the main thread has passed that place; one, with
  the fingerprint, after it, when the termination is not a kill and hot restart is not
  closed; none otherwise.
\<close>

theorem restart_spawns_once:
  "runNewProcess md5 err =
     (if md5 = [] then [LogLine Log LogWarn ''ignore execution file md5 check''] else [])
     @ [RunNewProcess md5]
     @ (case err of None \<Rightarrow> [] | Some e \<Rightarrow> [LogLine Log LogError (Error_str e)])
   \<and> restart ik g err = (if \<not> ik \<and> \<not> CloseHotRestart g then runNewProcess (fileMd5 g) err else [])
   \<and> (\<not> exited s \<and> pc s = MLaunch [] \<longrightarrow>
        next_state g (KillObserved b) s =
          Some (s\<lparr>iskill := b, pc := MDeadline, trace := trace s @ [(Main, IsKill b)]\<rparr>))
   \<and> (\<not> exited s \<and> pc s = MRestart \<longrightarrow>
        next_state g (Restart err) s =
          Some (s\<lparr>pc := MRangeBegin,
                  trace := trace s @ map (Pair Main) (restart (iskill s) g err)\<rparr>))
   \<and> (reachable g order s \<longrightarrow>
        filter is_spawn (map snd (trace s)) =
          (if after_restart (pc s) \<and> \<not> iskill s \<and> \<not> CloseHotRestart g
           then [RunNewProcess (fileMd5 g)] else [])
        \<and> (pc s = MReturned \<longrightarrow>
             length (filter is_spawn (map snd (trace s))) =
               (if \<not> iskill s \<and> \<not> CloseHotRestart g then 1 else 0)))"
proof (intro conjI impI)
  show "runNewProcess md5 err =
     (if md5 = [] then [LogLine Log LogWarn ''ignore execution file md5 check''] else [])
     @ [RunNewProcess md5]
     @ (case err of None \<Rightarrow> [] | Some e \<Rightarrow> [LogLine Log LogError (Error_str e)])"
    by (simp add: runNewProcess_def err_text_def split: option.splits)
  show "restart ik g err = (if \<not> ik \<and> \<not> CloseHotRestart g then runNewProcess (fileMd5 g) err else [])"
    by (simp add: restart_def)
next
  assume "\<not> exited s \<and> pc s = MLaunch []"
  then show "next_state g (KillObserved b) s =
      Some (s\<lparr>iskill := b, pc := MDeadline, trace := trace s @ [(Main, IsKill b)]\<rparr>)"
    by (simp add: step_kill emit_def)
next
  assume "\<not> exited s \<and> pc s = MRestart"
  then show "next_state g (Restart err) s =
      Some (s\<lparr>pc := MRangeBegin, trace := trace s @ map (Pair Main) (restart (iskill s) g err)\<rparr>)"
    by (simp add: step_restart emit_def)
next
  assume r: "reachable g order s"
  then have "spawn_inv g s"
    using reachable_invs [OF r] by simp
  then show f: "filter is_spawn (map snd (trace s)) =
      (if after_restart (pc s) \<and> \<not> iskill s \<and> \<not> CloseHotRestart g
       then [RunNewProcess (fileMd5 g)] else [])"
    by (simp add: spawn_inv_def)
  assume "pc s = MReturned"
  then show "length (filter is_spawn (map snd (trace s))) =
      (if \<not> iskill s \<and> \<not> CloseHotRestart g then 1 else 0)"
    using f by (simp add: after_restart_simps)
qed

theorem restart_spawns_once_witness:
  "\<exists>s t. run example_pkg example_schedule (init_run example_pkg [''Z'']) = Some s
     \<and> pc s = MReturned \<and> \<not> iskill s \<and> \<not> CloseHotRestart example_pkg
     \<and> filter is_spawn (map snd (trace s)) = [RunNewProcess ''f00d'']
     \<and> length (filter is_spawn (map snd (trace s))) = 1
     \<and> run twice_pkg twice_schedule (init_run twice_pkg [''Z'']) = Some t
     \<and> iskill t \<and> filter is_spawn (map snd (trace t)) = []"
proof -
  from example_final obtain s where
    r: "run example_pkg example_schedule (init_run example_pkg [''Z'']) = Some s"
    and h: "pc s = MReturned" "iskill s = False"
    by blast
  from twice_final obtain t where
    rt: "run twice_pkg twice_schedule (init_run twice_pkg [''Z'']) = Some t"
    and ht: "pc t = MWait" "iskill t = True"
    by blast
  have c: "\<not> CloseHotRestart example_pkg" "fileMd5 example_pkg = ''f00d''"
    by (simp_all add: eval_defs)
  have "filter is_spawn (map snd (trace s)) = [RunNewProcess ''f00d'']"
    "length (filter is_spawn (map snd (trace s))) = 1"
    using restart_spawns_once [of "[]" None False example_pkg s False "[''Z'']"]
      reachable_by_run [OF r] h c
    by (simp_all add: after_restart_simps)
  moreover have "filter is_spawn (map snd (trace t)) = []"
    using restart_spawns_once [of "[]" None False twice_pkg t False "[''Z'']"]
      reachable_by_run [OF rt] ht
    by simp
  ultimately show ?thesis
    using r rt h ht c by (intro exI [of _ s] exI [of _ t]) simp
qed


section \<open>Shutdown: properties\<close>

lemma step_deadline:
  "\<not> exited s \<Longrightarrow> pc s = MDeadline \<Longrightarrow>
   next_state g SetDeadline s = Some (emit Main [WithTimeout 20] (s\<lparr>ctx := Some 20, pc := MRestart\<rparr>))"
  by (simp add: next_state_def)

lemma step_visit:
  "\<not> exited s \<Longrightarrow> pc s = MRange st vis \<Longrightarrow> k \<notin> set vis \<Longrightarrow> map_of (srvMap s) k = Some v \<Longrightarrow>
   next_state g (RangeVisit k) s =
     Some (s\<lparr>shutdowns := shutdowns s @ [\<lparr>s_val = v, s_pc = SStart\<rparr>], pc := MRange st (k # vis)\<rparr>)"
  by (simp add: next_state_def)

lemma step_range_end:
  "\<not> exited s \<Longrightarrow> pc s = MRange st vis \<Longrightarrow>
   next_state g RangeEnd s = (if set st \<subseteq> set vis then Some (s\<lparr>pc := MWait\<rparr>) else None)"
  by (simp add: next_state_def)

lemma step_stop:
  "\<not> exited s \<Longrightarrow> j < length (shutdowns s) \<Longrightarrow> s_pc (shutdowns s ! j) = SStart \<Longrightarrow>
   next_state g (StopServer j err) s =
     Some (emit (ShutdownT j)
             (shutdown_task (iskill s) (ctx s) (elog g (engine (s_val (shutdowns s ! j))))
                (srv (s_val (shutdowns s ! j))) err)
             (s\<lparr>shutdowns := (shutdowns s)[j := (shutdowns s ! j)\<lparr>s_pc := SStopped\<rparr>]\<rparr>))"
  by (simp add: next_state_def Let_def)

text \<open>
  C6. A shutdown task calls \<open>Shutdown\<close> with the deadline; when that returns an error
  it closes the server, and when it returns none it does not. It writes its lines (the
  start line, the forced-close line at error level, the success line) only when the
  termination is a kill, and nothing otherwise. The deadline is made once, by the main
  thread, with 20 seconds, before any shutdown task exists; every \<open>Shutdown\<close> call of
  a run carries it. \<open>Range\<close> makes one shutdown task for each key it visits, with the
  server stored under that key, and ends only when it has visited every key that was
  there when it began.
\<close>

theorem shutdown_deadline_and_close:
  "shutdown_task False c lg sv None = [Shutdown sv c]
   \<and> shutdown_task False c lg sv (Some e) = [Shutdown sv c, Close sv]
   \<and> shutdown_task True c lg sv None =
        [LogLine lg LogInfo ''Shutdown server ...'', Shutdown sv c,
         LogLine lg LogSuccess ''Shutdown server done'']
   \<and> shutdown_task True c lg sv (Some e) =
        [LogLine lg LogInfo ''Shutdown server ...'', Shutdown sv c,
         LogLine lg LogError ''Timeout forced close'', Close sv]
   \<and> (\<not> exited s \<and> pc s = MDeadline \<longrightarrow>
        next_state g SetDeadline s =
          Some (s\<lparr>ctx := Some 20, pc := MRestart, trace := trace s @ [(Main, WithTimeout 20)]\<rparr>))
   \<and> (\<not> exited s \<and> pc s = MRangeBegin \<longrightarrow>
        next_state g RangeBegin s = Some (s\<lparr>pc := MRange (map fst (srvMap s)) []\<rparr>))
   \<and> (\<not> exited s \<and> pc s = MRange st vis \<and> k \<notin> set vis \<and> map_of (srvMap s) k = Some v \<longrightarrow>
        next_state g (RangeVisit k) s =
          Some (s\<lparr>shutdowns := shutdowns s @ [\<lparr>s_val = v, s_pc = SStart\<rparr>],
                  pc := MRange st (k # vis)\<rparr>))
   \<and> (\<not> exited s \<and> pc s = MRange st vis \<longrightarrow>
        next_state g RangeEnd s = (if set st \<subseteq> set vis then Some (s\<lparr>pc := MWait\<rparr>) else None))
   \<and> (reachable g order s \<longrightarrow>
        filter is_deadline (map snd (trace s)) =
          (if after_deadline (pc s) then [WithTimeout 20] else [])
        \<and> ctx s = (if after_deadline (pc s) then Some 20 else None)
        \<and> filter other_deadline (map snd (trace s)) = []
        \<and> (shutdowns s \<noteq> [] \<longrightarrow> after_deadline (pc s))
        \<and> (\<not> exited s \<and> j < length (shutdowns s) \<and> s_pc (shutdowns s ! j) = SStart \<longrightarrow>
             next_state g (StopServer j err) s =
               Some (s\<lparr>shutdowns := (shutdowns s)[j := (shutdowns s ! j)\<lparr>s_pc := SStopped\<rparr>],
                       trace := trace s @ map (Pair (ShutdownT j))
                         (shutdown_task (iskill s) (Some 20) (elog g (engine (s_val (shutdowns s ! j))))
                            (srv (s_val (shutdowns s ! j))) err)\<rparr>)))"
proof (intro conjI impI)
  show "shutdown_task False c lg sv None = [Shutdown sv c]"
    "shutdown_task False c lg sv (Some e) = [Shutdown sv c, Close sv]"
    "shutdown_task True c lg sv None =
        [LogLine lg LogInfo ''Shutdown server ...'', Shutdown sv c,
         LogLine lg LogSuccess ''Shutdown server done'']"
    "shutdown_task True c lg sv (Some e) =
        [LogLine lg LogInfo ''Shutdown server ...'', Shutdown sv c,
         LogLine lg LogError ''Timeout forced close'', Close sv]"
    by (simp_all add: shutdown_task_def)
next
  assume "\<not> exited s \<and> pc s = MDeadline"
  then show "next_state g SetDeadline s =
      Some (s\<lparr>ctx := Some 20, pc := MRestart, trace := trace s @ [(Main, WithTimeout 20)]\<rparr>)"
    by (simp add: step_deadline emit_def)
next
  assume "\<not> exited s \<and> pc s = MRangeBegin"
  then show "next_state g RangeBegin s = Some (s\<lparr>pc := MRange (map fst (srvMap s)) []\<rparr>)"
    by (simp add: next_state_def)
next
  assume "\<not> exited s \<and> pc s = MRange st vis \<and> k \<notin> set vis \<and> map_of (srvMap s) k = Some v"
  then show "next_state g (RangeVisit k) s =
      Some (s\<lparr>shutdowns := shutdowns s @ [\<lparr>s_val = v, s_pc = SStart\<rparr>], pc := MRange st (k # vis)\<rparr>)"
    by (simp add: step_visit)
next
  assume "\<not> exited s \<and> pc s = MRange st vis"
  then show "next_state g RangeEnd s = (if set st \<subseteq> set vis then Some (s\<lparr>pc := MWait\<rparr>) else None)"
    by (simp add: step_range_end)
next
  assume r: "reachable g order s"
  have d: "deadline_inv s" and ri: "range_inv s"
    using reachable_invs [OF r] by simp_all
  show "filter is_deadline (map snd (trace s)) = (if after_deadline (pc s) then [WithTimeout 20] else [])"
    and c: "ctx s = (if after_deadline (pc s) then Some 20 else None)"
    and "filter other_deadline (map snd (trace s)) = []"
    using d by (simp_all add: deadline_inv_def)
  show a: "after_deadline (pc s)" if "shutdowns s \<noteq> []"
    using ri that by (auto simp: range_inv_def dest: range_ok_tasks)
  assume h: "\<not> exited s \<and> j < length (shutdowns s) \<and> s_pc (shutdowns s ! j) = SStart"
  then have "shutdowns s \<noteq> []"
    by auto
  then have "ctx s = Some 20"
    using a c by simp
  then show "next_state g (StopServer j err) s =
      Some (s\<lparr>shutdowns := (shutdowns s)[j := (shutdowns s ! j)\<lparr>s_pc := SStopped\<rparr>],
              trace := trace s @ map (Pair (ShutdownT j))
                (shutdown_task (iskill s) (Some 20) (elog g (engine (s_val (shutdowns s ! j))))
                   (srv (s_val (shutdowns s ! j))) err)\<rparr>)"
    using h by (simp add: step_stop emit_def)
qed

theorem shutdown_deadline_and_close_witness:
  "\<exists>s s' t. run example_pkg (take 10 example_schedule) (init_run example_pkg [''Z'']) = Some s
     \<and> \<not> iskill s \<and> ctx s = Some 20
     \<and> next_state example_pkg (StopServer 0 (Some (OtherError ''context deadline exceeded''))) s = Some s'
     \<and> trace s' = trace s @ [(ShutdownT 0, Shutdown 0 (Some 20)), (ShutdownT 0, Close 0)]
     \<and> filter is_deadline (map snd (trace s)) = [WithTimeout 20]
     \<and> run twice_pkg twice_schedule (init_run twice_pkg [''Z'']) = Some t
     \<and> iskill t \<and> filter is_deadline (map snd (trace t)) = [WithTimeout 20]
     \<and> filter other_deadline (map snd (trace t)) = []"
proof -
  from example_stopping obtain s where
    r: "run example_pkg (take 10 example_schedule) (init_run example_pkg [''Z'']) = Some s"
    and h: "\<not> exited s" "pc s = MWait" "iskill s = False"
      "shutdowns s = [\<lparr>s_val = \<lparr>engine = 0, srv = 0\<rparr>, s_pc = SStart\<rparr>]"
    by blast
  from twice_final obtain t where
    rt: "run twice_pkg twice_schedule (init_run twice_pkg [''Z'']) = Some t"
    and ht: "pc t = MWait" "iskill t = True"
    by blast
  let ?e = "OtherError ''context deadline exceeded''"
  note th = shutdown_deadline_and_close
    [of "Some 20" "''[Z] ''" 0 ?e s example_pkg "[]" "[]" "[]" "\<lparr>engine = 0, srv = 0\<rparr>"
      "[''Z'']" 0 "Some ?e"]
  note tt = shutdown_deadline_and_close
    [of "Some 20" "''[Z] ''" 0 ?e t twice_pkg "[]" "[]" "[]" "\<lparr>engine = 0, srv = 0\<rparr>"
      "[''Z'']" 0 "Some ?e"]
  have c: "ctx s = Some 20" and d: "filter is_deadline (map snd (trace s)) = [WithTimeout 20]"
    using th reachable_by_run [OF r] h by (simp_all add: after_deadline_simps)
  let ?s' = "s\<lparr>shutdowns := (shutdowns s)[0 := (shutdowns s ! 0)\<lparr>s_pc := SStopped\<rparr>],
      trace := trace s @ map (Pair (ShutdownT 0))
        (shutdown_task (iskill s) (Some 20) (elog example_pkg (engine (s_val (shutdowns s ! 0))))
           (srv (s_val (shutdowns s ! 0))) (Some ?e))\<rparr>"
  have n: "next_state example_pkg (StopServer 0 (Some ?e)) s = Some ?s'"
    using th reachable_by_run [OF r] h by simp
  have lg: "elog example_pkg 0 = ''[Z] ''"
    by (simp add: eval_defs)
  have tr: "trace ?s' = trace s @ [(ShutdownT 0, Shutdown 0 (Some 20)), (ShutdownT 0, Close 0)]"
    using th h lg by simp
  have dt: "filter is_deadline (map snd (trace t)) = [WithTimeout 20]"
    "filter other_deadline (map snd (trace t)) = []"
    using tt reachable_by_run [OF rt] ht by (simp_all add: after_deadline_simps)
  show ?thesis
    using r rt h ht c d n tr dt
    by (intro exI [of _ s] exI [of _ ?s'] exI [of _ t]) simp
qed


end
